theory Spec2Isabelle
  imports
    Main
    "HOL-Library.Char_ord"
    "HOL-Library.List_Lexorder"
    "HOL-Library.Product_Lexorder"
    "HOL-Library.Multiset"
begin

section \<open>MCL orthologue clusters to ACT crunch files\<close>

text \<open>
  A shallow embedding of the notebook \<open>mcl_orthologues.ipynb\<close>: the cluster reader
  \<open>read_mcl\<close>, the annotation loader \<open>read_genbank\<close> and the pairwise writer
  \<open>write_crunch\<close>. Python exceptions are values of \<open>py_error\<close>; a function that can
  raise returns \<open>py_error + 'a\<close>.
\<close>

datatype py_error = IndexError | KeyError

subsection \<open>Python string primitives\<close>

text \<open>
  \<open>s.split(sep)\<close> for a one-character separator: the segments between the separators.
  The result is never empty; \<open>''''.split('|')\<close> is the list holding the empty string.
  \<open>split_where\<close> cuts at every character that satisfies the predicate.
\<close>

fun split_where :: "('a \<Rightarrow> bool) \<Rightarrow> 'a list \<Rightarrow> 'a list list" where
  "split_where P [] = [[]]"
| "split_where P (c # cs) =
     (let r = split_where P cs in if P c then [] # r else (c # hd r) # tl r)"

definition py_split_sep :: "char \<Rightarrow> string \<Rightarrow> string list" where
  "py_split_sep sep s = split_where (\<lambda>c. c = sep) s"

text \<open>The whitespace of a Python 2 byte string: space, tab, newline, return, VT, FF.\<close>

definition is_space :: "char \<Rightarrow> bool" where
  "is_space c = (c \<in> set [CHR '' '', CHR 0x09, CHR 0x0A, CHR 0x0D, CHR 0x0B, CHR 0x0C])"

text \<open>\<open>s.strip()\<close> removes leading and trailing whitespace.\<close>

definition strip :: "string \<Rightarrow> string" where
  "strip s = rev (dropWhile is_space (rev (dropWhile is_space s)))"

text \<open>\<open>s.split()\<close> without argument: the maximal runs of non-whitespace characters.\<close>

definition py_split :: "string \<Rightarrow> string list" where
  "py_split s = filter (\<lambda>t. t \<noteq> []) (split_where is_space s)"

text \<open>\<open>sep.join(xs)\<close>.\<close>

fun join :: "string \<Rightarrow> string list \<Rightarrow> string" where
  "join sep [] = []"
| "join sep [x] = x"
| "join sep (x # y # ys) = x @ sep @ join sep (y # ys)"

text \<open>
  \<open>str(n)\<close> for an integer: the decimal digits, with a leading minus sign for a negative
  number.
\<close>

fun digits :: "nat \<Rightarrow> string" where
  "digits n = (if n < 10 then [''0123456789'' ! n] else digits (n div 10) @ [''0123456789'' ! (n mod 10)])"

definition py_str :: "int \<Rightarrow> string" where
  "py_str i = (if i < 0 then CHR ''-'' # digits (nat (- i)) else digits (nat i))"

text \<open>
  \<open>os.path.join(a, b)\<close> on a POSIX system: an absolute second component replaces the
  first, otherwise the two are joined with one slash.
\<close>

definition os_path_join :: "string \<Rightarrow> string \<Rightarrow> string" where
  "os_path_join a b =
     (if b \<noteq> [] \<and> hd b = CHR ''/'' then b
      else if a = [] \<or> last a = CHR ''/'' then a @ b
      else a @ ''/'' @ b)"

text \<open>
  Iterating over a file opened in mode \<open>'rU'\<close>: the lines of the content, each with its
  terminator, where \<open>\n\<close>, \<open>\r\n\<close> and \<open>\r\<close> all end a line and are read as \<open>\n\<close>.
  A last line without terminator is a line; there is no empty line after a final
  terminator. The first argument is the current line, reversed.
\<close>

fun readlines_from :: "string \<Rightarrow> string \<Rightarrow> string list" where
  "readlines_from cur [] = (if cur = [] then [] else [rev cur])"
| "readlines_from cur (c # cs) =
     (if c = CHR 0x0A then rev (CHR 0x0A # cur) # readlines_from [] cs
      else if c = CHR 0x0D then
        (case cs of
           [] \<Rightarrow> [rev (CHR 0x0A # cur)]
         | d # ds \<Rightarrow>
             if d = CHR 0x0A then rev (CHR 0x0A # cur) # readlines_from [] ds
             else rev (CHR 0x0A # cur) # readlines_from [] cs)
      else readlines_from (c # cur) cs)"

definition readlines :: "string \<Rightarrow> string list" where
  "readlines content = readlines_from [] content"

text \<open>
  A list comprehension whose body can raise: the first exception ends it.
\<close>

fun map_err :: "('a \<Rightarrow> py_error + 'b) \<Rightarrow> 'a list \<Rightarrow> py_error + 'b list" where
  "map_err f [] = Inr []"
| "map_err f (x # xs) =
     (case f x of
        Inl e \<Rightarrow> Inl e
      | Inr y \<Rightarrow> (case map_err f xs of Inl e \<Rightarrow> Inl e | Inr ys \<Rightarrow> Inr (y # ys)))"

text \<open>
  \<open>itertools.combinations(xs, 2)\<close>: the pairs of elements at positions \<open>i < j\<close>, in
  lexicographic order of the positions.
\<close>

fun combinations2 :: "'a list \<Rightarrow> ('a \<times> 'a) list" where
  "combinations2 [] = []"
| "combinations2 (x # xs) = map (Pair x) xs @ combinations2 xs"

subsection \<open>Identifier normalisation\<close>

text \<open>
  The notebook defines \<open>split_seqid\<close> twice. The first definition is the one in force
  when \<open>read_mcl\<close> runs: \<open>seqid.split('|')[-2]\<close>, which raises \<open>IndexError\<close> when the
  split has fewer than two segments.
\<close>

definition split_seqid_reader :: "string \<Rightarrow> py_error + string" where
  "split_seqid_reader seqid =
     (let segs = py_split_sep (CHR ''|'') seqid
      in if length segs < 2 then Inl IndexError else Inr (segs ! (length segs - 2)))"

text \<open>
  The second definition is the one in force when \<open>write_crunch\<close> runs:
  \<open>seqid.split('|')[-1].split('.')[0]\<close>. Both splits are non-empty, so it never raises.
\<close>

definition split_seqid_writer :: "string \<Rightarrow> string" where
  "split_seqid_writer seqid = hd (py_split_sep (CHR ''.'') (last (py_split_sep (CHR ''|'') seqid)))"

subsection \<open>Cluster reader\<close>

text \<open>
  \<open>read_mcl\<close> takes the content of the cluster file. Every line that is not blank is
  split at whitespace, and every token is normalised with the reader's \<open>split_seqid\<close>.
  A cluster is the list of the normalised identifiers of one line.
\<close>

definition mcl_lines :: "string \<Rightarrow> string list list" where
  "mcl_lines content = [py_split (strip l). l \<leftarrow> readlines content, length (strip l) \<noteq> 0]"

definition read_mcl :: "string \<Rightarrow> py_error + string list list" where
  "read_mcl content = map_err (\<lambda>line. map_err split_seqid_reader line) (mcl_lines content)"

text \<open>The cell that removes the singletons: \<open>[c for c in all_clusters if len(c) > 1]\<close>.\<close>

definition drop_singletons :: "'a list list \<Rightarrow> 'a list list" where
  "drop_singletons all_clusters = [c \<leftarrow> all_clusters. length c > 1]"

subsection \<open>Annotation loader\<close>

text \<open>
  A feature of the result is the tuple \<open>(source, start, end, strand)\<close>.
\<close>

type_synonym feature = "string \<times> int \<times> int \<times> int"

definition ft_source :: "feature \<Rightarrow> string" where
  "ft_source ft = fst ft"

definition ft_start :: "feature \<Rightarrow> int" where
  "ft_start ft = fst (snd ft)"

definition ft_end :: "feature \<Rightarrow> int" where
  "ft_end ft = fst (snd (snd ft))"

definition ft_strand :: "feature \<Rightarrow> int" where
  "ft_strand ft = snd (snd (snd ft))"

text \<open>
  The GenBank parser is a library; \<open>read_genbank\<close> is modelled on what it returns, one
  record for each file name, in the order of the file names. Of a record only the fields
  that are read are kept: the annotation \<open>gi\<close> (absent when the dictionary of annotations
  has no such key), the identifier, and the features; of a feature its type, the
  qualifier \<open>protein_id\<close> (absent when the feature has no such qualifier) and its
  location.
\<close>

record seq_feature =
  ft_type :: string
  protein_id :: "string list option"
  loc_start :: int
  loc_end :: int
  loc_strand :: int

record seq_record =
  annotation_gi :: "string option"
  record_id :: string
  record_features :: "seq_feature list"

type_synonym ft_dict = "string \<rightharpoonup> feature"

text \<open>The inner loop: one assignment to \<open>ft_dict\<close> for each coding-sequence feature.\<close>

fun add_cds :: "string \<Rightarrow> seq_feature list \<Rightarrow> ft_dict \<Rightarrow> py_error + ft_dict" where
  "add_cds record_name [] d = Inr d"
| "add_cds record_name (ft # fts) d =
     (case protein_id ft of
        None \<Rightarrow> Inl KeyError
      | Some [] \<Rightarrow> Inl IndexError
      | Some (p # _) \<Rightarrow>
          add_cds record_name fts (d(p \<mapsto> (record_name, loc_start ft, loc_end ft, loc_strand ft))))"

definition record_name_of :: "string \<Rightarrow> string \<Rightarrow> string" where
  "record_name_of gi rid = join ''|'' [''gi'', gi, ''ref'', rid]"

text \<open>The outer loop over the files.\<close>

fun read_records :: "seq_record list \<Rightarrow> ft_dict \<Rightarrow> py_error + ft_dict" where
  "read_records [] d = Inr d"
| "read_records (r # rs) d =
     (case annotation_gi r of
        None \<Rightarrow> Inl KeyError
      | Some gi \<Rightarrow>
          (case add_cds (record_name_of gi (record_id r))
                  [f \<leftarrow> record_features r. ft_type f = ''CDS''] d of
             Inl e \<Rightarrow> Inl e
           | Inr d' \<Rightarrow> read_records rs d'))"

definition read_genbank :: "seq_record list \<Rightarrow> py_error + ft_dict" where
  "read_genbank records = read_records records Map.empty"

subsection \<open>Pairwise writer\<close>

text \<open>
  \<open>pairs_dict\<close> is a \<open>defaultdict(set)\<close>. It is represented by an association list with
  distinct keys, each value a list without repetition. The order of the list is not
  the order in which Python iterates over the dictionary or over one of its sets, which
  depends on the hashes; the only readers of the representation, \<open>write_files\<close> below and
  the lookups of \<open>dict_add\<close>, do not depend on it.
\<close>

type_synonym pairs_dict = "(string \<times> (feature \<times> feature) list) list"

text \<open>\<open>pairs_dict[key].add(entry)\<close>.\<close>

fun dict_add :: "string \<Rightarrow> feature \<times> feature \<Rightarrow> pairs_dict \<Rightarrow> pairs_dict" where
  "dict_add key entry [] = [(key, [entry])]"
| "dict_add key entry ((k, v) # d) =
     (if k = key then (k, if entry \<in> set v then v else v @ [entry]) # d
      else (k, v) # dict_add key entry d)"

text \<open>
  \<open>sorted([a, b])\<close> on two tuples. Tuples compare lexicographically, strings by their
  characters' codes, a proper prefix first. The sort is stable, so the two are swapped
  exactly when the second is less than the first.
\<close>

definition sorted2 :: "feature \<Rightarrow> feature \<Rightarrow> feature \<times> feature" where
  "sorted2 a b = (if b < a then (b, a) else (a, b))"

definition comparison_key :: "feature \<Rightarrow> feature \<Rightarrow> string" where
  "comparison_key ft1 ft2 =
     (let source1 = split_seqid_writer (ft_source ft1);
          source2 = split_seqid_writer (ft_source ft2)
      in source1 @ ''_vs_'' @ source2)"

text \<open>The loop over the pairs of one cluster.\<close>

fun add_pairs :: "ft_dict \<Rightarrow> (string \<times> string) list \<Rightarrow> pairs_dict \<Rightarrow> py_error + pairs_dict" where
  "add_pairs features [] d = Inr d"
| "add_pairs features (pair # pairs) d =
     (case features (fst pair) of
        None \<Rightarrow> Inl KeyError
      | Some fa \<Rightarrow>
          (case features (snd pair) of
             None \<Rightarrow> Inl KeyError
           | Some fb \<Rightarrow>
               (let (ft1, ft2) = sorted2 fa fb;
                    key = comparison_key ft1 ft2
                in add_pairs features pairs (dict_add key (ft1, ft2) d))))"

text \<open>The loop over the clusters.\<close>

fun add_clusters :: "ft_dict \<Rightarrow> string list list \<Rightarrow> pairs_dict \<Rightarrow> py_error + pairs_dict" where
  "add_clusters features [] d = Inr d"
| "add_clusters features (cluster # clusters) d =
     (case add_pairs features (combinations2 cluster) d of
        Inl e \<Rightarrow> Inl e
      | Inr d' \<Rightarrow> add_clusters features clusters d')"

text \<open>The line written for one stored pair.\<close>

definition crunch_line :: "feature \<Rightarrow> feature \<Rightarrow> string" where
  "crunch_line ft1 ft2 =
     join '' '' [''100'', ''100'',
                 if ft_strand ft1 < 0 then py_str (ft_end ft1) else py_str (ft_start ft1),
                 if ft_strand ft1 < 0 then py_str (ft_start ft1) else py_str (ft_end ft1),
                 ft_source ft1,
                 if ft_strand ft2 < 0 then py_str (ft_end ft2) else py_str (ft_start ft2),
                 if ft_strand ft2 < 0 then py_str (ft_start ft2) else py_str (ft_end ft2),
                 ft_source ft2]
     @ [CHR 0x0A]"

text \<open>
  \<open>write_crunch\<close> returns the files it writes: for each file its path and the strings
  passed to \<open>fh.write\<close>, one for each stored pair. The loop over \<open>pairs_dict.items()\<close> and
  the loop over the set of one key run in the order of Python's hash tables, which the
  program does not fix. So the files are a multiset, and the strings written to one
  file are a multiset: what is written, and how often, without an order. The
  grouping loop ends before the first file is opened, so a \<open>KeyError\<close> leaves no file
  behind. The file system is taken to accept every write; the default of \<open>outdir\<close> is
  \<open>data\<close>.
\<close>

type_synonym crunch_files = "(string \<times> string multiset) multiset"

definition write_files :: "string \<Rightarrow> pairs_dict \<Rightarrow> crunch_files" where
  "write_files outdir d =
     image_mset
       (\<lambda>(k, v). (os_path_join outdir (k @ ''.crunch''),
                 image_mset (\<lambda>(ft1, ft2). crunch_line ft1 ft2) (mset v)))
       (mset d)"

definition write_crunch :: "string list list \<Rightarrow> ft_dict \<Rightarrow> string \<Rightarrow> py_error + crunch_files" where
  "write_crunch clusters features outdir =
     (case add_clusters features clusters [] of
        Inl e \<Rightarrow> Inl e
      | Inr d \<Rightarrow> Inr (write_files outdir d))"

text \<open>
  The cells of the notebook in their order: \<open>all_clusters = read_mcl(...)\<close>, then
  \<open>clusters = [c for c in all_clusters if len(c) > 1]\<close>, then
  \<open>write_crunch(clusters, features)\<close>. The arguments are the content of the cluster
  file, the feature mapping and the output directory.
\<close>

definition pipeline :: "string \<Rightarrow> ft_dict \<Rightarrow> string \<Rightarrow> py_error + crunch_files" where
  "pipeline content features outdir =
     (case read_mcl content of
        Inl e \<Rightarrow> Inl e
      | Inr all_clusters \<Rightarrow> write_crunch (drop_singletons all_clusters) features outdir)"

subsection \<open>Notions used to state the properties\<close>

text \<open>
  The lines of a cluster file that hold a cluster are those that are not blank, which
  is the test \<open>len(l.strip())\<close> of \<open>read_mcl\<close>. A cluster file is well formed when every
  token of every line has at least one \<open>|\<close>.
\<close>

definition nonblank_lines :: "string \<Rightarrow> string list" where
  "nonblank_lines content = [l \<leftarrow> readlines content. strip l \<noteq> []]"

definition well_formed_mcl :: "string \<Rightarrow> bool" where
  "well_formed_mcl content =
     list_all (\<lambda>l. list_all (\<lambda>t. CHR ''|'' \<in> set t) (py_split (strip l))) (readlines content)"

definition tokens_ok :: "string list \<Rightarrow> bool" where
  "tokens_ok line = list_all (\<lambda>t. CHR ''|'' \<in> set t) line"

text \<open>The second-to-last and the last \<open>|\<close>-delimited segment of a token.\<close>

definition second_last_segment :: "string \<Rightarrow> string" where
  "second_last_segment t = rev (py_split_sep (CHR ''|'') t) ! 1"

definition last_segment :: "string \<Rightarrow> string" where
  "last_segment t = rev (py_split_sep (CHR ''|'') t) ! 0"

text \<open>
  What the annotation loader emits for one record: an entry for each coding-sequence
  feature, in the order of the features. A record loads when it has the annotation
  \<open>gi\<close> and each of its coding-sequence features has a protein identifier.
\<close>

definition cds_entry :: "string \<Rightarrow> seq_feature \<Rightarrow> string \<times> feature" where
  "cds_entry source_name f =
     (hd (the (protein_id f)), (source_name, loc_start f, loc_end f, loc_strand f))"

definition cds_entries :: "seq_record \<Rightarrow> (string \<times> feature) list" where
  "cds_entries r =
     map (cds_entry (''gi|'' @ the (annotation_gi r) @ ''|ref|'' @ record_id r))
       [f \<leftarrow> record_features r. ft_type f = ''CDS'']"

definition has_protein_id :: "seq_feature \<Rightarrow> bool" where
  "has_protein_id f = (case protein_id f of Some (p # ps) \<Rightarrow> True | _ \<Rightarrow> False)"

definition loads :: "seq_record \<Rightarrow> bool" where
  "loads r =
     (annotation_gi r \<noteq> None \<and>
      list_all has_protein_id [f \<leftarrow> record_features r. ft_type f = ''CDS''])"

text \<open>
  Two records that share a protein identifier: an example of what the parser returns
  for two annotation files.
\<close>

definition rec_a :: seq_record where
  "rec_a = \<lparr>annotation_gi = Some ''50118965'', record_id = ''NC_004547.2'',
      record_features =
        [\<lparr>ft_type = ''gene'', protein_id = None, loc_start = 0, loc_end = 10, loc_strand = 1\<rparr>,
         \<lparr>ft_type = ''CDS'', protein_id = Some [''YP_1.1''], loc_start = 0, loc_end = 10, loc_strand = 1\<rparr>,
         \<lparr>ft_type = ''CDS'', protein_id = Some [''YP_2.1''], loc_start = 20, loc_end = 50, loc_strand = - 1\<rparr>]\<rparr>"

definition rec_b :: seq_record where
  "rec_b = \<lparr>annotation_gi = Some ''188532166'', record_id = ''NC_010694.1'',
      record_features =
        [\<lparr>ft_type = ''CDS'', protein_id = Some [''YP_1.1''], loc_start = 5, loc_end = 15, loc_strand = - 1\<rparr>]\<rparr>"

text \<open>
  The pairs that \<open>write_crunch\<close> processes, and what it stores for a pair whose two
  members are in the feature mapping.
\<close>

definition all_pairs :: "string list list \<Rightarrow> (string \<times> string) list" where
  "all_pairs clusters = concat (map combinations2 clusters)"

definition resolves :: "ft_dict \<Rightarrow> string \<times> string \<Rightarrow> bool" where
  "resolves features pair = (features (fst pair) \<noteq> None \<and> features (snd pair) \<noteq> None)"

definition stored_entry :: "ft_dict \<Rightarrow> string \<times> string \<Rightarrow> feature \<times> feature" where
  "stored_entry features pair = sorted2 (the (features (fst pair))) (the (features (snd pair)))"

definition stored_key :: "ft_dict \<Rightarrow> string \<times> string \<Rightarrow> string" where
  "stored_key features pair =
     comparison_key (fst (stored_entry features pair)) (snd (stored_entry features pair))"

definition dict_entries :: "pairs_dict \<Rightarrow> (string \<times> (feature \<times> feature)) set" where
  "dict_entries d = {(k, e). \<exists>v. (k, v) \<in> set d \<and> e \<in> set v}"

text \<open>
  The natural order of the feature tuples, written out: source name, then start, then
  end, then strand.
\<close>

definition tuple_le :: "feature \<Rightarrow> feature \<Rightarrow> bool" where
  "tuple_le x y =
     (ft_source x < ft_source y \<or> ft_source x = ft_source y \<and>
       (ft_start x < ft_start y \<or> ft_start x = ft_start y \<and>
         (ft_end x < ft_end y \<or> ft_end x = ft_end y \<and> ft_strand x \<le> ft_strand y)))"


text \<open>
  The fields of a crunch line as the format describes them: score, identity, then for
  each feature its two coordinates and its source name, the coordinates swapped on the
  negative strand.
\<close>

definition crunch_coords :: "feature \<Rightarrow> string list" where
  "crunch_coords ft =
     (if ft_strand ft < 0 then [py_str (ft_end ft), py_str (ft_start ft)]
      else [py_str (ft_start ft), py_str (ft_end ft)])"

definition crunch_fields :: "feature \<Rightarrow> feature \<Rightarrow> string list" where
  "crunch_fields ft1 ft2 =
     [''100'', ''100''] @ crunch_coords ft1 @ [ft_source ft1] @ crunch_coords ft2 @ [ft_source ft2]"

section \<open>Properties of the string primitives\<close>

lemma split_where_nonempty: "split_where P s \<noteq> []"
  by (induction s) (auto simp: Let_def)

lemma split_where_none: "\<forall>c\<in>set s. \<not> P c \<Longrightarrow> split_where P s = [s]"
  by (induction s) (auto simp: Let_def)

lemma split_where_segments_clean:
  "seg \<in> set (split_where P s) \<Longrightarrow> c \<in> set seg \<Longrightarrow> \<not> P c"
proof (induction s arbitrary: seg)
  case Nil
  then show ?case by simp
next
  case (Cons a s)
  let ?r = "split_where P s"
  have ne: "?r \<noteq> []" by (rule split_where_nonempty)
  show ?case
  proof (cases "P a")
    case True
    with Cons.prems have "seg = [] \<or> seg \<in> set ?r" by (simp add: Let_def)
    with Cons.prems(2) Cons.IH show ?thesis by auto
  next
    case False
    with Cons.prems have "seg = a # hd ?r \<or> seg \<in> set (tl ?r)" by (simp add: Let_def)
    then show ?thesis
    proof
      assume "seg = a # hd ?r"
      with Cons.prems(2) have "c = a \<or> c \<in> set (hd ?r)" by auto
      moreover have "hd ?r \<in> set ?r" using ne by simp
      ultimately show ?thesis using False Cons.IH by auto
    next
      assume "seg \<in> set (tl ?r)"
      then have "seg \<in> set ?r" using ne by (auto dest: list.set_sel(2))
      with Cons.prems(2) Cons.IH show ?thesis by auto
    qed
  qed
qed

lemma split_where_hd: "hd (split_where P s) = takeWhile (\<lambda>c. \<not> P c) s"
  by (induction s) (auto simp: Let_def)

lemma split_where_length: "length (split_where P s) = Suc (length (filter P s))"
proof (induction s)
  case Nil
  then show ?case by simp
next
  case (Cons a s)
  have "split_where P s \<noteq> []" by (rule split_where_nonempty)
  then have "length (tl (split_where P s)) = length (filter P s)"
    using Cons.IH by simp
  then show ?case using Cons.IH by (simp add: Let_def)
qed

lemma split_seqid_writer_takeWhile:
  "split_seqid_writer s = takeWhile (\<lambda>c. c \<noteq> CHR ''.'') (last (py_split_sep (CHR ''|'') s))"
  by (simp add: split_seqid_writer_def py_split_sep_def split_where_hd)

lemma split_seqid_writer_no_bar: "CHR ''|'' \<notin> set (split_seqid_writer s)"
proof
  let ?l = "last (py_split_sep (CHR ''|'') s)"
  assume "CHR ''|'' \<in> set (split_seqid_writer s)"
  then have "CHR ''|'' \<in> set ?l"
    unfolding split_seqid_writer_takeWhile by (rule set_takeWhileD [THEN conjunct1])
  moreover have "?l \<in> set (split_where (\<lambda>c. c = CHR ''|'') s)"
    unfolding py_split_sep_def by (rule last_in_set) (rule split_where_nonempty)
  ultimately show False
    using split_where_segments_clean [of ?l "\<lambda>c. c = CHR ''|''" s "CHR ''|''"] by simp
qed

lemma split_seqid_writer_no_dot: "CHR ''.'' \<notin> set (split_seqid_writer s)"
  unfolding split_seqid_writer_takeWhile by (auto dest: set_takeWhileD)

lemma split_seqid_writer_fixed:
  assumes "CHR ''|'' \<notin> set s" and "CHR ''.'' \<notin> set s"
  shows "split_seqid_writer s = s"
proof -
  have "py_split_sep (CHR ''|'') s = [s]"
    unfolding py_split_sep_def using assms(1) by (intro split_where_none) auto
  moreover have "py_split_sep (CHR ''.'') s = [s]"
    unfolding py_split_sep_def using assms(2) by (intro split_where_none) auto
  ultimately show ?thesis by (simp add: split_seqid_writer_def)
qed

section \<open>The grouping loop\<close>

lemma add_pairs_ok:
  "\<forall>p\<in>set ps. resolves fs p \<Longrightarrow>
   add_pairs fs ps d = Inr (fold (\<lambda>p. dict_add (stored_key fs p) (stored_entry fs p)) ps d)"
proof (induction ps arbitrary: d)
  case Nil
  then show ?case by simp
next
  case (Cons p ps)
  from Cons.prems obtain fa fb where r: "fs (fst p) = Some fa" "fs (snd p) = Some fb"
    by (auto simp: resolves_def)
  obtain f1 f2 where s: "sorted2 fa fb = (f1, f2)" by (cases "sorted2 fa fb")
  have "add_pairs fs (p # ps) d = add_pairs fs ps (dict_add (comparison_key f1 f2) (f1, f2) d)"
    using r s by simp
  also have "\<dots> = Inr (fold (\<lambda>p. dict_add (stored_key fs p) (stored_entry fs p)) ps
                       (dict_add (comparison_key f1 f2) (f1, f2) d))"
    using Cons.prems by (intro Cons.IH) simp
  finally show ?case using r s by (simp add: stored_key_def stored_entry_def)
qed

lemma add_pairs_err:
  "\<not> (\<forall>p\<in>set ps. resolves fs p) \<Longrightarrow> add_pairs fs ps d = Inl KeyError"
proof (induction ps arbitrary: d)
  case Nil
  then show ?case by simp
next
  case (Cons p ps)
  show ?case
  proof (cases "resolves fs p")
    case True
    then obtain fa fb where r: "fs (fst p) = Some fa" "fs (snd p) = Some fb"
      by (auto simp: resolves_def)
    obtain f1 f2 where s: "sorted2 fa fb = (f1, f2)" by (cases "sorted2 fa fb")
    from True Cons.prems have "\<not> (\<forall>p\<in>set ps. resolves fs p)" by simp
    then show ?thesis using r s Cons.IH by simp
  next
    case False
    then show ?thesis by (auto simp: resolves_def split: option.splits)
  qed
qed

lemma add_clusters_ok:
  "\<forall>p\<in>set (all_pairs cs). resolves fs p \<Longrightarrow>
   add_clusters fs cs d = Inr (fold (\<lambda>p. dict_add (stored_key fs p) (stored_entry fs p)) (all_pairs cs) d)"
proof (induction cs arbitrary: d)
  case Nil
  then show ?case by (simp add: all_pairs_def)
next
  case (Cons c cs)
  from Cons.prems have 1: "\<forall>p\<in>set (combinations2 c). resolves fs p"
    and 2: "\<forall>p\<in>set (all_pairs cs). resolves fs p"
    by (auto simp: all_pairs_def)
  show ?case using add_pairs_ok [OF 1] Cons.IH [OF 2] by (simp add: all_pairs_def)
qed

lemma add_clusters_err:
  "\<not> (\<forall>p\<in>set (all_pairs cs). resolves fs p) \<Longrightarrow> add_clusters fs cs d = Inl KeyError"
proof (induction cs arbitrary: d)
  case Nil
  then show ?case by (simp add: all_pairs_def)
next
  case (Cons c cs)
  show ?case
  proof (cases "\<forall>p\<in>set (combinations2 c). resolves fs p")
    case True
    with Cons.prems have "\<not> (\<forall>p\<in>set (all_pairs cs). resolves fs p)"
      by (auto simp: all_pairs_def)
    then show ?thesis using add_pairs_ok [OF True] Cons.IH by simp
  next
    case False
    then show ?thesis using add_pairs_err by simp
  qed
qed

lemma dict_entries_add: "dict_entries (dict_add k e d) = insert (k, e) (dict_entries d)"
proof (induction d)
  case Nil
  then show ?case by (auto simp: dict_entries_def)
next
  case (Cons kv d)
  obtain k' v where kv: "kv = (k', v)" by (cases kv)
  have split: "\<And>x xs. dict_entries (x # xs) = (Pair (fst x) ` set (snd x)) \<union> dict_entries xs"
    by (auto simp: dict_entries_def)
  show ?case using Cons.IH unfolding kv by (auto simp: split)
qed

lemma dict_keys_add:
  "map fst (dict_add k e d) = (if k \<in> set (map fst d) then map fst d else map fst d @ [k])"
  by (induction d) (force simp: image_iff)+

lemma dict_keys_distinct_add: "distinct (map fst d) \<Longrightarrow> distinct (map fst (dict_add k e d))"
  by (simp add: dict_keys_add)

lemma dict_values_nonempty_add:
  "\<forall>kv\<in>set d. snd kv \<noteq> [] \<Longrightarrow> \<forall>kv\<in>set (dict_add k e d). snd kv \<noteq> []"
  by (induction d) (force split: if_splits)+

lemma dict_values_distinct_add:
  "\<forall>kv\<in>set d. distinct (snd kv) \<Longrightarrow> \<forall>kv\<in>set (dict_add k e d). distinct (snd kv)"
  by (induction d) (force split: if_splits)+

lemma fold_dict_entries:
  "dict_entries (fold (\<lambda>p. dict_add (kf p) (ef p)) ps d) = (\<lambda>p. (kf p, ef p)) ` set ps \<union> dict_entries d"
  by (induction ps arbitrary: d) (auto simp: dict_entries_add)

lemma fold_dict_keys_distinct:
  "distinct (map fst d) \<Longrightarrow> distinct (map fst (fold (\<lambda>p. dict_add (kf p) (ef p)) ps d))"
  by (induction ps arbitrary: d) (auto simp: dict_keys_distinct_add)

lemma fold_dict_values_nonempty:
  "\<forall>kv\<in>set d. snd kv \<noteq> [] \<Longrightarrow> \<forall>kv\<in>set (fold (\<lambda>p. dict_add (kf p) (ef p)) ps d). snd kv \<noteq> []"
proof (induction ps arbitrary: d)
  case Nil
  then show ?case by simp
next
  case (Cons p ps)
  show ?case using Cons.IH [OF dict_values_nonempty_add [OF Cons.prems]] by simp
qed

lemma fold_dict_values_distinct:
  "\<forall>kv\<in>set d. distinct (snd kv) \<Longrightarrow> \<forall>kv\<in>set (fold (\<lambda>p. dict_add (kf p) (ef p)) ps d). distinct (snd kv)"
proof (induction ps arbitrary: d)
  case Nil
  then show ?case by simp
next
  case (Cons p ps)
  show ?case using Cons.IH [OF dict_values_distinct_add [OF Cons.prems]] by simp
qed

lemma combinations2_set:
  "set (combinations2 xs) = {(xs ! i, xs ! j) | i j. i < j \<and> j < length xs}"
proof (induction xs)
  case Nil
  then show ?case by simp
next
  case (Cons x xs)
  have "{((x # xs) ! i, (x # xs) ! j) | i j. i < j \<and> j < length (x # xs)}
        = Pair x ` set xs \<union> {(xs ! i, xs ! j) | i j. i < j \<and> j < length xs}" (is "?L = ?A \<union> ?B")
  proof (intro set_eqI iffI)
    fix p assume "p \<in> ?L"
    then obtain i j where p: "p = ((x # xs) ! i, (x # xs) ! j)" and ij: "i < j" "j < Suc (length xs)"
      by auto
    from ij obtain j' where j: "j = Suc j'" by (cases j) auto
    show "p \<in> ?A \<union> ?B"
    proof (cases i)
      case 0
      then show ?thesis using p j ij by auto
    next
      case (Suc i')
      then have "p = (xs ! i', xs ! j')" "i' < j'" "j' < length xs" using p j ij by auto
      then show ?thesis by blast
    qed
  next
    fix p assume "p \<in> ?A \<union> ?B"
    then show "p \<in> ?L"
    proof
      assume "p \<in> ?A"
      then obtain y where "y \<in> set xs" "p = (x, y)" by auto
      then obtain j where "j < length xs" "xs ! j = y" by (auto simp: in_set_conv_nth)
      then have "p = ((x # xs) ! 0, (x # xs) ! Suc j)" "0 < Suc j" "Suc j < length (x # xs)"
        using \<open>p = (x, y)\<close> by auto
      then show ?thesis by blast
    next
      assume "p \<in> ?B"
      then obtain i j where "p = (xs ! i, xs ! j)" "i < j" "j < length xs" by auto
      then have "p = ((x # xs) ! Suc i, (x # xs) ! Suc j)" "Suc i < Suc j" "Suc j < length (x # xs)"
        by auto
      then show ?thesis by blast
    qed
  qed
  then show ?case using Cons.IH by simp
qed


lemma combinations2_members:
  "2 \<le> length c \<Longrightarrow> fst ` set (combinations2 c) \<union> snd ` set (combinations2 c) = set c"
proof (induction c)
  case Nil
  then show ?case by simp
next
  case (Cons x xs)
  then have ne: "xs \<noteq> []" by auto
  have sub: "fst ` set (combinations2 xs) \<union> snd ` set (combinations2 xs) \<subseteq> set xs"
    by (auto simp: combinations2_set)
  have "fst ` set (combinations2 (x # xs)) \<union> snd ` set (combinations2 (x # xs))
        = (fst ` Pair x ` set xs) \<union> set xs \<union> (fst ` set (combinations2 xs) \<union> snd ` set (combinations2 xs))"
    by (auto simp: image_Un image_image)
  also have "\<dots> = insert x (set xs)"
  proof -
    have "fst ` Pair x ` set xs = {x}" using ne by (cases xs) (auto simp: image_image)
    then show ?thesis using sub by auto
  qed
  finally show ?case by simp
qed

lemma combinations2_short: "length c < 2 \<Longrightarrow> combinations2 c = []"
  by (cases c) (auto)

lemma write_crunch_ok:
  assumes "\<forall>p\<in>set (all_pairs cs). resolves fs p"
  shows "write_crunch cs fs od =
     Inr (write_files od (fold (\<lambda>p. dict_add (stored_key fs p) (stored_entry fs p)) (all_pairs cs) []))"
  using add_clusters_ok [OF assms] by (simp add: write_crunch_def)

lemma write_crunch_err:
  assumes "\<not> (\<forall>p\<in>set (all_pairs cs). resolves fs p)"
  shows "write_crunch cs fs od = Inl KeyError"
  using add_clusters_err [OF assms] by (simp add: write_crunch_def)

lemma all_pairs_resolve_iff:
  "(\<forall>p\<in>set (all_pairs cs). resolves fs p)
   = (\<forall>c\<in>set cs. 2 \<le> length c \<longrightarrow> (\<forall>m\<in>set c. fs m \<noteq> None))"
proof -
  have one: "(\<forall>p\<in>set (combinations2 c). resolves fs p) = (2 \<le> length c \<longrightarrow> (\<forall>m\<in>set c. fs m \<noteq> None))"
    for c
  proof (cases "2 \<le> length c")
    case True
    have "(\<forall>p\<in>set (combinations2 c). resolves fs p)
          = (\<forall>m\<in>fst ` set (combinations2 c) \<union> snd ` set (combinations2 c). fs m \<noteq> None)"
      unfolding resolves_def by blast
    then show ?thesis using combinations2_members [OF True] True by simp
  next
    case False
    then have "combinations2 c = []" by (intro combinations2_short) simp
    then show ?thesis using False by simp
  qed
  show ?thesis by (simp add: all_pairs_def one)
qed

section \<open>The lines written and the order of a pair\<close>

lemma crunch_line_fields: "crunch_line ft1 ft2 = join '' '' (crunch_fields ft1 ft2) @ [CHR 0x0A]"
  by (simp add: crunch_line_def crunch_fields_def crunch_coords_def)

lemma crunch_fields_length: "length (crunch_fields ft1 ft2) = 8"
  by (simp add: crunch_fields_def crunch_coords_def)

lemma write_files_eq:
  "write_files od d =
     image_mset
       (\<lambda>kv. (os_path_join od (fst kv @ ''.crunch''),
              image_mset (\<lambda>e. crunch_line (fst e) (snd e)) (mset (snd kv))))
       (mset d)"
  by (simp add: write_files_def split_def)

lemma write_files_mem:
  "(k, v) \<in> set d \<Longrightarrow>
   (os_path_join od (k @ ''.crunch''), image_mset (\<lambda>e. crunch_line (fst e) (snd e)) (mset v))
     \<in># write_files od d"
  unfolding write_files_eq by force

lemma write_crunch_Inr:
  assumes "write_crunch cs fs od = Inr files"
  shows "\<forall>p\<in>set (all_pairs cs). resolves fs p"
    and "add_clusters fs cs [] = Inr (fold (\<lambda>p. dict_add (stored_key fs p) (stored_entry fs p)) (all_pairs cs) [])"
    and "files = write_files od (fold (\<lambda>p. dict_add (stored_key fs p) (stored_entry fs p)) (all_pairs cs) [])"
proof -
  show r: "\<forall>p\<in>set (all_pairs cs). resolves fs p"
  proof (rule ccontr)
    assume "\<not> ?thesis"
    from write_crunch_err [OF this, of od] assms show False by simp
  qed
  show "add_clusters fs cs [] = Inr (fold (\<lambda>p. dict_add (stored_key fs p) (stored_entry fs p)) (all_pairs cs) [])"
    by (rule add_clusters_ok [OF r])
  show "files = write_files od (fold (\<lambda>p. dict_add (stored_key fs p) (stored_entry fs p)) (all_pairs cs) [])"
    using write_crunch_ok [OF r, of od] assms by simp
qed

lemma sorted2_commute: "sorted2 a b = sorted2 b a"
  by (auto simp: sorted2_def)

lemma sorted2_cases: "sorted2 a b = (a, b) \<or> sorted2 a b = (b, a)"
  by (simp add: sorted2_def)

lemma tuple_le_iff: "tuple_le x y = (x \<le> y)"
proof -
  obtain s1 a1 b1 t1 where x: "x = (s1, a1, b1, t1)" by (cases x)
  obtain s2 a2 b2 t2 where y: "y = (s2, a2, b2, t2)" by (cases y)
  show ?thesis unfolding x y tuple_le_def ft_source_def ft_start_def ft_end_def ft_strand_def
    by auto
qed

lemma sorted2_ordered: "tuple_le (fst (sorted2 a b)) (snd (sorted2 a b))"
  unfolding tuple_le_iff by (auto simp: sorted2_def not_less less_imp_le)

lemma dict_add_idem: "dict_add k e (dict_add k e d) = dict_add k e d"
  by (induction d) auto

lemma dict_entries_mem: "(k, e) \<in> dict_entries d \<Longrightarrow> \<exists>v. (k, v) \<in> set d \<and> e \<in> set v"
  by (simp add: dict_entries_def)

section \<open>The pairs of a cluster\<close>







section \<open>The cluster reader\<close>

lemma py_split_sep_length:
  "length (py_split_sep sep s) = Suc (length (filter (\<lambda>c. c = sep) s))"
  by (simp add: py_split_sep_def split_where_length)

lemma py_split_sep_short: "(length (py_split_sep sep s) < 2) = (sep \<notin> set s)"
proof -
  have "(filter (\<lambda>c. c = sep) s = []) = (sep \<notin> set s)"
    by (auto simp: filter_empty_conv)
  then show ?thesis unfolding py_split_sep_length by auto
qed

lemma split_seqid_reader_eq:
  "split_seqid_reader t =
     (if CHR ''|'' \<in> set t then Inr (second_last_segment t) else Inl IndexError)"
proof (cases "CHR ''|'' \<in> set t")
  case True
  let ?segs = "py_split_sep (CHR ''|'') t"
  from True have len: "\<not> length ?segs < 2" by (simp add: py_split_sep_short)
  then have "rev ?segs ! 1 = ?segs ! (length ?segs - 2)"
    by (simp add: rev_nth numeral_2_eq_2)
  with len True show ?thesis
    by (simp add: split_seqid_reader_def second_last_segment_def Let_def)
next
  case False
  then have "length (py_split_sep (CHR ''|'') t) < 2" by (simp add: py_split_sep_short)
  with False show ?thesis by (simp add: split_seqid_reader_def Let_def)
qed

lemma last_segment_last: "last_segment t = last (py_split_sep (CHR ''|'') t)"
proof -
  have "py_split_sep (CHR ''|'') t \<noteq> []"
    by (simp add: py_split_sep_def split_where_nonempty)
  then show ?thesis by (simp add: last_segment_def rev_nth last_conv_nth)
qed

lemma map_err_all_ok: "\<forall>x\<in>set xs. f x = Inr (g x) \<Longrightarrow> map_err f xs = Inr (map g xs)"
  by (induction xs) auto

lemma map_err_some_fail:
  "\<forall>x\<in>set xs. f x = Inr (g x) \<or> f x = Inl e \<Longrightarrow> \<exists>x\<in>set xs. f x = Inl e \<Longrightarrow>
   map_err f xs = Inl e"
proof (induction xs)
  case Nil
  then show ?case by simp
next
  case (Cons x xs)
  show ?case
  proof (cases "f x")
    case (Inl e')
    with Cons.prems(1) have "e' = e" by auto
    with Inl show ?thesis by simp
  next
    case (Inr y)
    with Cons.prems have "\<exists>x\<in>set xs. f x = Inl e" by auto
    moreover from Cons.prems(1) have "\<forall>x\<in>set xs. f x = Inr (g x) \<or> f x = Inl e" by simp
    ultimately have "map_err f xs = Inl e" by (rule Cons.IH [rotated])
    with Inr show ?thesis by simp
  qed
qed

lemma line_normalised:
  "map_err split_seqid_reader line =
     (if tokens_ok line then Inr (map second_last_segment line) else Inl IndexError)"
proof (cases "tokens_ok line")
  case True
  then have "\<forall>t\<in>set line. split_seqid_reader t = Inr (second_last_segment t)"
    by (simp add: tokens_ok_def list_all_iff split_seqid_reader_eq)
  then show ?thesis using True by (simp add: map_err_all_ok)
next
  case False
  then have "\<exists>t\<in>set line. split_seqid_reader t = Inl IndexError"
    by (auto simp: tokens_ok_def list_all_iff split_seqid_reader_eq)
  moreover have "\<forall>t\<in>set line. split_seqid_reader t = Inr (second_last_segment t)
      \<or> split_seqid_reader t = Inl IndexError"
    by (simp add: split_seqid_reader_eq)
  ultimately show ?thesis using False by (simp add: map_err_some_fail)
qed

lemma comprehension_filter:
  "concat (map (\<lambda>x. if P x then [f x] else []) xs) = map f (filter P xs)"
  by (induction xs) auto

lemma mcl_lines_nonblank:
  "mcl_lines content = map (\<lambda>l. py_split (strip l)) (nonblank_lines content)"
  by (simp add: mcl_lines_def nonblank_lines_def comprehension_filter)

lemma py_split_Nil: "py_split [] = []"
  by (simp add: py_split_def)

lemma well_formed_mcl_lines:
  "well_formed_mcl content = (\<forall>line\<in>set (mcl_lines content). tokens_ok line)"
proof -
  have "tokens_ok (py_split (strip l))" if "strip l = []" for l
    using that by (simp add: tokens_ok_def py_split_Nil)
  then show ?thesis
    unfolding well_formed_mcl_def mcl_lines_nonblank nonblank_lines_def list_all_iff tokens_ok_def
    by auto
qed

lemma well_formed_mcl_tokens:
  "well_formed_mcl content =
     (\<forall>l\<in>set (nonblank_lines content). \<forall>t\<in>set (py_split (strip l)). CHR ''|'' \<in> set t)"
  unfolding well_formed_mcl_lines mcl_lines_nonblank tokens_ok_def list_all_iff by simp

lemma read_mcl_eq:
  "read_mcl content =
     (if well_formed_mcl content
      then Inr (map (\<lambda>l. map second_last_segment (py_split (strip l))) (nonblank_lines content))
      else Inl IndexError)"
proof (cases "well_formed_mcl content")
  case True
  then have "\<forall>line\<in>set (mcl_lines content).
      map_err split_seqid_reader line = Inr (map second_last_segment line)"
    by (simp add: well_formed_mcl_lines line_normalised)
  then have "read_mcl content = Inr (map (map second_last_segment) (mcl_lines content))"
    unfolding read_mcl_def by (rule map_err_all_ok)
  with True show ?thesis by (simp add: mcl_lines_nonblank comp_def)
next
  case False
  then have "\<exists>line\<in>set (mcl_lines content). map_err split_seqid_reader line = Inl IndexError"
    by (auto simp: well_formed_mcl_lines line_normalised)
  moreover have "\<forall>line\<in>set (mcl_lines content).
      map_err split_seqid_reader line = Inr (map second_last_segment line)
      \<or> map_err split_seqid_reader line = Inl IndexError"
    by (simp add: line_normalised)
  ultimately have "read_mcl content = Inl IndexError"
    unfolding read_mcl_def by (rule map_err_some_fail [rotated])
  with False show ?thesis by simp
qed

section \<open>The annotation loader\<close>

lemma record_name_of_eq: "record_name_of gi rid = ''gi|'' @ gi @ ''|ref|'' @ rid"
  by (simp add: record_name_of_def)

lemma add_cds_ok:
  "list_all has_protein_id fts \<Longrightarrow>
   add_cds name fts d = Inr (d ++ map_of (rev (map (cds_entry name) fts)))"
proof (induction fts arbitrary: d)
  case Nil
  then show ?case by simp
next
  case (Cons ft fts)
  from Cons.prems obtain p ps where p: "protein_id ft = Some (p # ps)"
    by (auto simp: has_protein_id_def split: option.splits list.splits)
  let ?v = "(name, loc_start ft, loc_end ft, loc_strand ft)"
  have e: "cds_entry name ft = (p, ?v)" by (simp add: cds_entry_def p)
  have "add_cds name (ft # fts) d = add_cds name fts (d(p \<mapsto> ?v))" by (simp add: p)
  also have "\<dots> = Inr (d(p \<mapsto> ?v) ++ map_of (rev (map (cds_entry name) fts)))"
    using Cons.prems by (intro Cons.IH) simp
  also have "d(p \<mapsto> ?v) ++ map_of (rev (map (cds_entry name) fts))
      = d ++ map_of (rev (map (cds_entry name) (ft # fts)))"
    by (rule ext) (simp add: e map_add_def split: option.splits)
  finally show ?case .
qed

lemma read_records_ok:
  "list_all loads rs \<Longrightarrow>
   read_records rs d = Inr (d ++ map_of (rev (concat (map cds_entries rs))))"
proof (induction rs arbitrary: d)
  case Nil
  then show ?case by simp
next
  case (Cons r rs)
  from Cons.prems obtain gi where gi: "annotation_gi r = Some gi"
    and cds: "list_all has_protein_id [f \<leftarrow> record_features r. ft_type f = ''CDS'']"
    by (auto simp: loads_def)
  have e: "map (cds_entry (record_name_of gi (record_id r))) [f \<leftarrow> record_features r. ft_type f = ''CDS'']
      = cds_entries r"
    by (simp add: cds_entries_def gi record_name_of_eq)
  have "read_records (r # rs) d = read_records rs (d ++ map_of (rev (cds_entries r)))"
    using add_cds_ok [OF cds, of "record_name_of gi (record_id r)" d] by (simp add: gi e)
  also have "\<dots> = Inr (d ++ map_of (rev (cds_entries r)) ++ map_of (rev (concat (map cds_entries rs))))"
    using Cons.prems by (intro Cons.IH) simp
  finally show ?case by simp
qed

lemma read_genbank_ok:
  "list_all loads records \<Longrightarrow>
   read_genbank records = Inr (map_of (rev (concat (map cds_entries records))))"
  by (simp add: read_genbank_def read_records_ok)

lemma add_cds_err:
  "\<not> list_all has_protein_id fts \<Longrightarrow> \<exists>e. add_cds name fts d = Inl e"
proof (induction fts arbitrary: d)
  case Nil
  then show ?case by simp
next
  case (Cons ft fts)
  show ?case
  proof (cases "has_protein_id ft")
    case True
    then obtain p ps where p: "protein_id ft = Some (p # ps)"
      by (auto simp: has_protein_id_def split: option.splits list.splits)
    from True Cons.prems have "\<not> list_all has_protein_id fts" by simp
    from Cons.IH [OF this] show ?thesis by (simp add: p)
  next
    case False
    then show ?thesis
      by (auto simp: has_protein_id_def split: option.splits list.splits)
  qed
qed

lemma read_records_err:
  "\<not> list_all loads rs \<Longrightarrow> \<exists>e. read_records rs d = Inl e"
proof (induction rs arbitrary: d)
  case Nil
  then show ?case by simp
next
  case (Cons r rs)
  show ?case
  proof (cases "loads r")
    case True
    then obtain gi where gi: "annotation_gi r = Some gi"
      and cds: "list_all has_protein_id [f \<leftarrow> record_features r. ft_type f = ''CDS'']"
      by (auto simp: loads_def)
    from True Cons.prems have "\<not> list_all loads rs" by simp
    from Cons.IH [OF this] show ?thesis
      using add_cds_ok [OF cds, of "record_name_of gi (record_id r)" d] by (simp add: gi)
  next
    case False
    show ?thesis
    proof (cases "annotation_gi r")
      case None
      then show ?thesis by simp
    next
      case (Some gi)
      with False have "\<not> list_all has_protein_id [f \<leftarrow> record_features r. ft_type f = ''CDS'']"
        by (simp add: loads_def)
      from add_cds_err [OF this, of "record_name_of gi (record_id r)" d]
      show ?thesis by (auto simp: Some)
    qed
  qed
qed

lemma read_genbank_err: "\<not> list_all loads records \<Longrightarrow> \<exists>e. read_genbank records = Inl e"
  by (simp add: read_genbank_def read_records_err)

lemma last_record_wins:
  assumes "k \<in> fst ` set (cds_entries r)"
    and "\<forall>r'\<in>set rs2. k \<notin> fst ` set (cds_entries r')"
  shows "map_of (rev (concat (map cds_entries (rs1 @ r # rs2)))) k = map_of (rev (cds_entries r)) k"
proof -
  have "k \<notin> fst ` set (rev (concat (map cds_entries rs2)))"
    using assms(2) by auto
  then have none: "map_of (rev (concat (map cds_entries rs2))) k = None"
    by (simp add: map_of_eq_None_iff)
  have "k \<in> fst ` set (rev (cds_entries r))" using assms(1) by simp
  then obtain v where some: "map_of (rev (cds_entries r)) k = Some v"
    by (metis map_of_eq_None_iff not_None_eq)
  show ?thesis by (simp add: map_add_def none some)
qed

section \<open>Claims\<close>

text \<open>
  C8. The writer's identifier normalisation (last \<open>|\<close>-delimited segment, cut at the
  first dot) is idempotent: for every string \<open>s\<close>, normalising \<open>split_seqid(s)\<close> again
  returns it unchanged. In particular the last segment of \<open>A|B\<close>, which is \<open>B\<close>, is
  mapped to itself.
\<close>

theorem split_seqid_writer_idempotent:
  "split_seqid_writer (split_seqid_writer s) = split_seqid_writer s
   \<and> last (py_split_sep (CHR ''|'') ''A|B'') = ''B''
   \<and> split_seqid_writer ''B'' = ''B''
   \<and> split_seqid_writer ''A|B'' = ''B''"
proof -
  have "split_seqid_writer (split_seqid_writer s) = split_seqid_writer s"
    by (rule split_seqid_writer_fixed)
       (rule split_seqid_writer_no_bar, rule split_seqid_writer_no_dot)
  moreover have "last (py_split_sep (CHR ''|'') ''A|B'') = ''B''"
    by (simp add: py_split_sep_def)
  moreover have "split_seqid_writer ''B'' = ''B''"
    by (simp add: split_seqid_writer_def py_split_sep_def)
  moreover have "split_seqid_writer ''A|B'' = ''B''"
    by (simp add: split_seqid_writer_def py_split_sep_def)
  ultimately show ?thesis by simp
qed

text \<open>
  C1, as amended. The end-to-end scenario, on a cluster file that the reader accepts.
  The cluster file has the two lines \<open>gi|id1|<TAB>gi|id2|\<close> and \<open>gi|id3|\<close>, whose tokens
  have \<open>id1\<close>, \<open>id2\<close> and \<open>id3\<close> as their second-to-last \<open>|\<close>-delimited segment, and the
  feature mapping is \<open>{id1: (orgA, 0, 10, 1), id2: (orgB, 5, 15, 1)}\<close>. Then \<open>read_mcl\<close>
  returns the clusters \<open>(id1, id2)\<close> and \<open>(id3)\<close>, the singleton filter keeps the first
  only, and the pipeline (\<open>read_mcl\<close>, singleton filter, \<open>write_crunch\<close> with the default
  output directory) writes exactly one file, \<open>orgA_vs_orgB.crunch\<close>, with the single line
  \<open>100 100 0 10 orgA 5 15 orgB\<close>. The singleton cluster contributes nothing, also when
  it is passed to \<open>write_crunch\<close> unfiltered.
\<close>

theorem end_to_end_scenario:
  "read_mcl (''gi|id1|'' @ [CHR 0x09] @ ''gi|id2|'' @ [CHR 0x0A] @ ''gi|id3|'' @ [CHR 0x0A])
     = Inr [[''id1'', ''id2''], [''id3'']]
   \<and> drop_singletons [[''id1'', ''id2''], [''id3'']] = [[''id1'', ''id2'']]
   \<and> pipeline (''gi|id1|'' @ [CHR 0x09] @ ''gi|id2|'' @ [CHR 0x0A] @ ''gi|id3|'' @ [CHR 0x0A])
        [''id1'' \<mapsto> (''orgA'', 0, 10, 1), ''id2'' \<mapsto> (''orgB'', 5, 15, 1)] ''data''
     = Inr {#(''data/orgA_vs_orgB.crunch'', {#''100 100 0 10 orgA 5 15 orgB'' @ [CHR 0x0A]#})#}
   \<and> write_crunch (drop_singletons [[''id1'', ''id2''], [''id3'']])
        [''id1'' \<mapsto> (''orgA'', 0, 10, 1), ''id2'' \<mapsto> (''orgB'', 5, 15, 1)] ''data''
     = Inr {#(''data/orgA_vs_orgB.crunch'', {#''100 100 0 10 orgA 5 15 orgB'' @ [CHR 0x0A]#})#}
   \<and> write_crunch [[''id3'']]
        [''id1'' \<mapsto> (''orgA'', 0, 10, 1), ''id2'' \<mapsto> (''orgB'', 5, 15, 1)] ''data'' = Inr {#}"
proof -
  have read: "read_mcl (''gi|id1|'' @ [CHR 0x09] @ ''gi|id2|'' @ [CHR 0x0A] @ ''gi|id3|'' @ [CHR 0x0A])
     = Inr [[''id1'', ''id2''], [''id3'']]"
    by (simp add: read_mcl_def mcl_lines_def readlines_def strip_def py_split_def is_space_def
        split_seqid_reader_def py_split_sep_def)
  have drop: "drop_singletons [[''id1'', ''id2''], [''id3'']] = [[''id1'', ''id2'']]"
    by (simp add: drop_singletons_def)
  have run: "write_crunch [[''id1'', ''id2'']]
        [''id1'' \<mapsto> (''orgA'', 0, 10, 1), ''id2'' \<mapsto> (''orgB'', 5, 15, 1)] ''data''
     = Inr {#(''data/orgA_vs_orgB.crunch'', {#''100 100 0 10 orgA 5 15 orgB'' @ [CHR 0x0A]#})#}"
    by (simp add: write_crunch_def sorted2_def comparison_key_def split_seqid_writer_def
        py_split_sep_def write_files_def os_path_join_def crunch_line_def ft_source_def
        ft_start_def ft_end_def ft_strand_def py_str_def)
  have single: "write_crunch [[''id3'']]
        [''id1'' \<mapsto> (''orgA'', 0, 10, 1), ''id2'' \<mapsto> (''orgB'', 5, 15, 1)] ''data'' = Inr {#}"
    by (simp add: write_crunch_def write_files_def)
  have pipe: "pipeline (''gi|id1|'' @ [CHR 0x09] @ ''gi|id2|'' @ [CHR 0x0A] @ ''gi|id3|'' @ [CHR 0x0A])
        [''id1'' \<mapsto> (''orgA'', 0, 10, 1), ''id2'' \<mapsto> (''orgB'', 5, 15, 1)] ''data''
     = Inr {#(''data/orgA_vs_orgB.crunch'', {#''100 100 0 10 orgA 5 15 orgB'' @ [CHR 0x0A]#})#}"
    unfolding pipeline_def read by (simp only: sum.case drop run)
  show ?thesis by (simp only: read drop run single pipe simp_thms)
qed

text \<open>
  The scenario as the specification words it does not run. On the cluster file with
  the lines \<open>id1<TAB>id2\<close> and \<open>id3\<close> the tokens have no \<open>|\<close>, the reader's \<open>split_seqid\<close>
  raises \<open>IndexError\<close> on the first of them, and the pipeline ends there: no file is
  written.
\<close>

theorem end_to_end_scenario_counterexample:
  "read_mcl (''id1'' @ [CHR 0x09] @ ''id2'' @ [CHR 0x0A] @ ''id3'' @ [CHR 0x0A]) = Inl IndexError
   \<and> pipeline (''id1'' @ [CHR 0x09] @ ''id2'' @ [CHR 0x0A] @ ''id3'' @ [CHR 0x0A])
        [''id1'' \<mapsto> (''orgA'', 0, 10, 1), ''id2'' \<mapsto> (''orgB'', 5, 15, 1)] ''data''
     = Inl IndexError
   \<and> pipeline (''id1'' @ [CHR 0x09] @ ''id2'' @ [CHR 0x0A] @ ''id3'' @ [CHR 0x0A])
        [''id1'' \<mapsto> (''orgA'', 0, 10, 1), ''id2'' \<mapsto> (''orgB'', 5, 15, 1)] ''data''
     \<noteq> Inr {#(''data/orgA_vs_orgB.crunch'', {#''100 100 0 10 orgA 5 15 orgB'' @ [CHR 0x0A]#})#}"
proof -
  have read: "read_mcl (''id1'' @ [CHR 0x09] @ ''id2'' @ [CHR 0x0A] @ ''id3'' @ [CHR 0x0A])
     = Inl IndexError"
    by (simp add: read_mcl_def mcl_lines_def readlines_def strip_def py_split_def is_space_def
        split_seqid_reader_def py_split_sep_def)
  have pipe: "pipeline (''id1'' @ [CHR 0x09] @ ''id2'' @ [CHR 0x0A] @ ''id3'' @ [CHR 0x0A])
        [''id1'' \<mapsto> (''orgA'', 0, 10, 1), ''id2'' \<mapsto> (''orgB'', 5, 15, 1)] ''data''
     = Inl IndexError"
    unfolding pipeline_def read by (simp only: sum.case)
  show ?thesis unfolding pipe using read by simp
qed

text \<open>
  C5. \<open>write_crunch\<close> raises \<open>KeyError\<close> exactly when some member of some cluster with at
  least two members is absent from the feature mapping, and then writes nothing; it
  completes exactly when every member of every cluster with at least two members is
  in the feature mapping.
\<close>

theorem write_crunch_key_error:
  "(write_crunch clusters features outdir = Inl KeyError)
     = (\<exists>c\<in>set clusters. 2 \<le> length c \<and> (\<exists>m\<in>set c. features m = None))
   \<and> (\<exists>files. write_crunch clusters features outdir = Inr files)
     = (\<forall>c\<in>set clusters. 2 \<le> length c \<longrightarrow> (\<forall>m\<in>set c. features m \<noteq> None))"
proof (cases "\<forall>p\<in>set (all_pairs clusters). resolves features p")
  case True
  then have A: "\<forall>c\<in>set clusters. 2 \<le> length c \<longrightarrow> (\<forall>m\<in>set c. features m \<noteq> None)"
    using all_pairs_resolve_iff [of clusters features] by blast
  then have E: "\<not> (\<exists>c\<in>set clusters. 2 \<le> length c \<and> (\<exists>m\<in>set c. features m = None))"
    by meson
  show ?thesis unfolding write_crunch_ok [OF True, of outdir] using A E by simp
next
  case False
  then have A: "\<not> (\<forall>c\<in>set clusters. 2 \<le> length c \<longrightarrow> (\<forall>m\<in>set c. features m \<noteq> None))"
    using all_pairs_resolve_iff [of clusters features] by blast
  then have E: "\<exists>c\<in>set clusters. 2 \<le> length c \<and> (\<exists>m\<in>set c. features m = None)"
    by meson
  show ?thesis unfolding write_crunch_err [OF False, of outdir] using A E by simp
qed

theorem write_crunch_key_error_witness:
  "write_crunch [[''id1'', ''id2''], [''id3'', ''id4'']]
     [''id1'' \<mapsto> (''orgA'', 0, 10, 1), ''id2'' \<mapsto> (''orgB'', 5, 15, 1), ''id3'' \<mapsto> (''orgA'', 20, 30, 1)]
     ''data'' = Inl KeyError
   \<and> (\<exists>files. write_crunch [[''id1'', ''id2''], [''id3'']]
     [''id1'' \<mapsto> (''orgA'', 0, 10, 1), ''id2'' \<mapsto> (''orgB'', 5, 15, 1)] ''data'' = Inr files)"
proof
  show "write_crunch [[''id1'', ''id2''], [''id3'', ''id4'']]
     [''id1'' \<mapsto> (''orgA'', 0, 10, 1), ''id2'' \<mapsto> (''orgB'', 5, 15, 1), ''id3'' \<mapsto> (''orgA'', 20, 30, 1)]
     ''data'' = Inl KeyError"
    by (rule iffD2 [OF write_crunch_key_error [THEN conjunct1]]) simp
  show "\<exists>files. write_crunch [[''id1'', ''id2''], [''id3'']]
     [''id1'' \<mapsto> (''orgA'', 0, 10, 1), ''id2'' \<mapsto> (''orgB'', 5, 15, 1)] ''data'' = Inr files"
    by (rule iffD2 [OF write_crunch_key_error [THEN conjunct2]]) simp
qed

text \<open>
  C2. For every pair stored in the comparison map, \<open>write_crunch\<close> writes one line: the
  eight fields \<open>100\<close>, \<open>100\<close>, start, end and source name of the first feature, start,
  end and source name of the second, joined by single spaces and ended by a newline.
  The two coordinates of a feature on the negative strand are written end first, so a
  feature with strand \<open>-1\<close>, start 5 and end 20 gives \<open>20 5\<close>. The keys of the comparison
  map are distinct, the stored pairs of one key are distinct, there is one file for
  each key, named after it, and the strings written to the file of a key are the
  lines of its pairs, one for each.
\<close>

theorem crunch_line_format:
  "(write_crunch clusters features outdir = Inr files \<longrightarrow>
      (\<exists>d. add_clusters features clusters [] = Inr d
          \<and> files
              = image_mset
                  (\<lambda>kv. (os_path_join outdir (fst kv @ ''.crunch''),
                         image_mset (\<lambda>e. join '' '' (crunch_fields (fst e) (snd e)) @ [CHR 0x0A])
                           (mset (snd kv))))
                  (mset d)
          \<and> distinct (map fst d)
          \<and> list_all (\<lambda>kv. distinct (snd kv)) d))
   \<and> crunch_line ft1 ft2 = join '' '' (crunch_fields ft1 ft2) @ [CHR 0x0A]
   \<and> length (crunch_fields ft1 ft2) = 8
   \<and> crunch_fields ft1 ft2
       = [''100'', ''100'', crunch_coords ft1 ! 0, crunch_coords ft1 ! 1, ft_source ft1,
          crunch_coords ft2 ! 0, crunch_coords ft2 ! 1, ft_source ft2]
   \<and> (ft_strand ft1 < 0 \<longrightarrow> crunch_coords ft1 = [py_str (ft_end ft1), py_str (ft_start ft1)])
   \<and> (\<not> ft_strand ft1 < 0 \<longrightarrow> crunch_coords ft1 = [py_str (ft_start ft1), py_str (ft_end ft1)])
   \<and> crunch_coords (src, 5, 20, - 1) = [''20'', ''5'']"
proof -
  have run: "write_crunch clusters features outdir = Inr files \<longrightarrow>
      (\<exists>d. add_clusters features clusters [] = Inr d
          \<and> files
              = image_mset
                  (\<lambda>kv. (os_path_join outdir (fst kv @ ''.crunch''),
                         image_mset (\<lambda>e. join '' '' (crunch_fields (fst e) (snd e)) @ [CHR 0x0A])
                           (mset (snd kv))))
                  (mset d)
          \<and> distinct (map fst d)
          \<and> list_all (\<lambda>kv. distinct (snd kv)) d)"
  proof
    assume a: "write_crunch clusters features outdir = Inr files"
    let ?d = "fold (\<lambda>p. dict_add (stored_key features p) (stored_entry features p)) (all_pairs clusters) []"
    have "add_clusters features clusters [] = Inr ?d" by (rule write_crunch_Inr(2) [OF a])
    moreover have "files
        = image_mset
            (\<lambda>kv. (os_path_join outdir (fst kv @ ''.crunch''),
                   image_mset (\<lambda>e. join '' '' (crunch_fields (fst e) (snd e)) @ [CHR 0x0A])
                     (mset (snd kv))))
            (mset ?d)"
      unfolding write_crunch_Inr(3) [OF a] write_files_eq crunch_line_fields ..
    moreover have "distinct (map fst ?d)"
      by (rule fold_dict_keys_distinct) simp
    moreover have "list_all (\<lambda>kv. distinct (snd kv)) ?d"
      unfolding list_all_iff by (rule fold_dict_values_distinct) simp
    ultimately show "\<exists>d. add_clusters features clusters [] = Inr d
          \<and> files
              = image_mset
                  (\<lambda>kv. (os_path_join outdir (fst kv @ ''.crunch''),
                         image_mset (\<lambda>e. join '' '' (crunch_fields (fst e) (snd e)) @ [CHR 0x0A])
                           (mset (snd kv))))
                  (mset d)
          \<and> distinct (map fst d)
          \<and> list_all (\<lambda>kv. distinct (snd kv)) d"
      by blast
  qed
  have fields: "crunch_fields ft1 ft2
       = [''100'', ''100'', crunch_coords ft1 ! 0, crunch_coords ft1 ! 1, ft_source ft1,
          crunch_coords ft2 ! 0, crunch_coords ft2 ! 1, ft_source ft2]"
    by (simp add: crunch_fields_def crunch_coords_def)
  have neg: "ft_strand ft1 < 0 \<longrightarrow> crunch_coords ft1 = [py_str (ft_end ft1), py_str (ft_start ft1)]"
    by (simp add: crunch_coords_def)
  have pos: "\<not> ft_strand ft1 < 0 \<longrightarrow> crunch_coords ft1 = [py_str (ft_start ft1), py_str (ft_end ft1)]"
    by (simp add: crunch_coords_def)
  have ex: "crunch_coords (src, 5, 20, - 1) = [''20'', ''5'']"
    by (simp add: crunch_coords_def ft_strand_def ft_start_def ft_end_def py_str_def)
  show ?thesis
    using run crunch_line_fields [of ft1 ft2] crunch_fields_length [of ft1 ft2] fields neg pos ex
    by (intro conjI)
qed

theorem crunch_line_format_witness:
  "write_crunch [[''p'', ''q'']] [''p'' \<mapsto> (''X'', 5, 20, - 1), ''q'' \<mapsto> (''Y'', 1, 2, 1)] ''data''
     = Inr {#(''data/X_vs_Y.crunch'', {#''100 100 20 5 X 1 2 Y'' @ [CHR 0x0A]#})#}
   \<and> (\<exists>d. add_clusters [''p'' \<mapsto> (''X'', 5, 20, - 1), ''q'' \<mapsto> (''Y'', 1, 2, 1)] [[''p'', ''q'']] [] = Inr d
        \<and> {#(''data/X_vs_Y.crunch'', {#''100 100 20 5 X 1 2 Y'' @ [CHR 0x0A]#})#}
            = image_mset
                (\<lambda>kv. (os_path_join ''data'' (fst kv @ ''.crunch''),
                       image_mset (\<lambda>e. join '' '' (crunch_fields (fst e) (snd e)) @ [CHR 0x0A])
                         (mset (snd kv))))
                (mset d))
   \<and> crunch_coords (''X'', 5, 20, - 1) = [py_str 20, py_str 5]
   \<and> crunch_coords (''Y'', 1, 2, 1) = [py_str 1, py_str 2]"
proof -
  let ?fs = "[''p'' \<mapsto> (''X'', 5, 20, - 1), ''q'' \<mapsto> (''Y'', 1, 2, 1)] :: ft_dict"
  let ?files = "{#(''data/X_vs_Y.crunch'', {#''100 100 20 5 X 1 2 Y'' @ [CHR 0x0A]#})#}"
  have run: "write_crunch [[''p'', ''q'']] ?fs ''data'' = Inr ?files"
    by (simp add: write_crunch_def sorted2_def comparison_key_def split_seqid_writer_def
        py_split_sep_def write_files_def os_path_join_def crunch_line_def ft_source_def
        ft_start_def ft_end_def ft_strand_def py_str_def)
  have neg: "ft_strand (''X'', 5, 20, - 1) < 0" by (simp add: ft_strand_def)
  note t = crunch_line_format [of "[[''p'', ''q'']]" ?fs "''data''" ?files "(''X'', 5, 20, - 1)"]
  from t [THEN conjunct1, rule_format, OF run]
  obtain d where d: "add_clusters ?fs [[''p'', ''q'']] [] = Inr d"
    and m: "?files
       = image_mset
           (\<lambda>kv. (os_path_join ''data'' (fst kv @ ''.crunch''),
                  image_mset (\<lambda>e. join '' '' (crunch_fields (fst e) (snd e)) @ [CHR 0x0A])
                    (mset (snd kv))))
           (mset d)"
    by blast
  from t [THEN conjunct2, THEN conjunct2, THEN conjunct2, THEN conjunct2, THEN conjunct1] neg
  have coords: "crunch_coords (''X'', 5, 20, - 1) = [py_str 20, py_str 5]"
    by (simp add: ft_start_def ft_end_def)
  have ex: "\<exists>d. add_clusters ?fs [[''p'', ''q'']] [] = Inr d
        \<and> ?files
            = image_mset
                (\<lambda>kv. (os_path_join ''data'' (fst kv @ ''.crunch''),
                       image_mset (\<lambda>e. join '' '' (crunch_fields (fst e) (snd e)) @ [CHR 0x0A])
                         (mset (snd kv))))
                (mset d)"
    by (rule exI [of _ d]) (rule conjI [OF d m])
  have pos: "\<not> ft_strand (''Y'', 1, 2, 1) < 0" by (simp add: ft_strand_def)
  note t' = crunch_line_format [of "[[''p'', ''q'']]" ?fs "''data''" ?files "(''Y'', 1, 2, 1)"]
  from t' [THEN conjunct2, THEN conjunct2, THEN conjunct2, THEN conjunct2, THEN conjunct2,
      THEN conjunct1] pos
  have coords': "crunch_coords (''Y'', 1, 2, 1) = [py_str 1, py_str 2]"
    by (simp add: ft_start_def ft_end_def)
  show ?thesis by (rule conjI [OF run conjI [OF ex conjI [OF coords coords']]])
qed

text \<open>
  C3. Grouping does not depend on the order of a pair. For two members \<open>a\<close> and \<open>b\<close> that
  the feature mapping resolves to \<open>f1\<close> and \<open>f2\<close>, sorting \<open>[f1, f2]\<close> and \<open>[f2, f1]\<close> gives
  the same entry, which holds the two features in the natural order of the tuples
  (source name, then start, then end, then strand). Processing \<open>(a, b)\<close> or \<open>(b, a)\<close>
  inserts that entry under the same key, and processing both inserts it once; the
  output is one file with one line in each case.
\<close>

theorem pair_grouping_order_independent:
  assumes "features a = Some f1" and "features b = Some f2"
  shows "sorted2 f1 f2 = sorted2 f2 f1
    \<and> tuple_le (fst (sorted2 f1 f2)) (snd (sorted2 f1 f2))
    \<and> {fst (sorted2 f1 f2), snd (sorted2 f1 f2)} = {f1, f2}
    \<and> add_pairs features [(a, b)] d
        = Inr (dict_add (comparison_key (fst (sorted2 f1 f2)) (snd (sorted2 f1 f2))) (sorted2 f1 f2) d)
    \<and> add_pairs features [(b, a)] d = add_pairs features [(a, b)] d
    \<and> add_pairs features [(a, b), (b, a)] d = add_pairs features [(a, b)] d
    \<and> write_crunch [[a, b]] features outdir
        = Inr {#(os_path_join outdir
                   (comparison_key (fst (sorted2 f1 f2)) (snd (sorted2 f1 f2)) @ ''.crunch''),
                 {#crunch_line (fst (sorted2 f1 f2)) (snd (sorted2 f1 f2))#})#}
    \<and> write_crunch [[b, a]] features outdir = write_crunch [[a, b]] features outdir
    \<and> write_crunch [[a, b], [b, a]] features outdir = write_crunch [[a, b]] features outdir"
proof -
  let ?e = "sorted2 f1 f2"
  let ?k = "comparison_key (fst ?e) (snd ?e)"
  have c: "sorted2 f2 f1 = ?e" by (rule sorted2_commute)
  have ab: "add_pairs features [(a, b)] d' = Inr (dict_add ?k ?e d')" for d'
    using assms by (simp add: case_prod_beta)
  have ba: "add_pairs features [(b, a)] d' = Inr (dict_add ?k ?e d')" for d'
    using assms by (simp add: case_prod_beta c)
  have abba: "add_pairs features [(a, b), (b, a)] d' = Inr (dict_add ?k ?e d')" for d'
    using assms by (simp add: case_prod_beta c dict_add_idem)
  have set: "{fst ?e, snd ?e} = {f1, f2}"
    using sorted2_cases [of f1 f2] by auto
  have w1: "write_crunch [[a, b]] features outdir
        = Inr {#(os_path_join outdir (?k @ ''.crunch''), {#crunch_line (fst ?e) (snd ?e)#})#}"
    using assms by (simp add: write_crunch_def write_files_def case_prod_beta)
  have w2: "write_crunch [[b, a]] features outdir = write_crunch [[a, b]] features outdir"
    using assms by (simp add: write_crunch_def case_prod_beta c)
  have w3: "write_crunch [[a, b], [b, a]] features outdir = write_crunch [[a, b]] features outdir"
    using assms by (simp add: write_crunch_def case_prod_beta c dict_add_idem)
  show ?thesis
    unfolding ab ba abba w2 w3 w1 using c [symmetric] sorted2_ordered [of f1 f2] set
    by (intro conjI) simp_all
qed

theorem pair_grouping_order_independent_witness:
  "[''id1'' \<mapsto> (''orgB'', 5, 15, 1), ''id2'' \<mapsto> (''orgA'', 0, 10, 1)] ''id1'' = Some (''orgB'', 5, 15, 1)
   \<and> [''id1'' \<mapsto> (''orgB'', 5, 15, 1), ''id2'' \<mapsto> (''orgA'', 0, 10, 1)] ''id2'' = Some (''orgA'', 0, 10, 1)
   \<and> sorted2 (''orgB'', 5, 15, 1) (''orgA'', 0, 10, 1) = ((''orgA'', 0, 10, 1), (''orgB'', 5, 15, 1))
   \<and> write_crunch [[''id1'', ''id2''], [''id2'', ''id1'']]
        [''id1'' \<mapsto> (''orgB'', 5, 15, 1), ''id2'' \<mapsto> (''orgA'', 0, 10, 1)] ''data''
      = Inr {#(''data/orgA_vs_orgB.crunch'', {#''100 100 0 10 orgA 5 15 orgB'' @ [CHR 0x0A]#})#}"
proof -
  let ?fs = "[''id1'' \<mapsto> (''orgB'', 5, 15, 1), ''id2'' \<mapsto> (''orgA'', 0, 10, 1)] :: ft_dict"
  have h1: "?fs ''id1'' = Some (''orgB'', 5, 15, 1)" by simp
  have h2: "?fs ''id2'' = Some (''orgA'', 0, 10, 1)" by simp
  have s: "sorted2 (''orgB'', 5, 15, 1) (''orgA'', 0, 10, 1) = ((''orgA'', 0, 10, 1), (''orgB'', 5, 15, 1))"
    by (simp add: sorted2_def)
  note t = pair_grouping_order_independent
    [where features = ?fs and a = "''id1''" and b = "''id2''" and d = "[]" and outdir = "''data''",
      OF h1 h2]
  have "write_crunch [[''id1'', ''id2''], [''id2'', ''id1'']] ?fs ''data''
      = Inr {#(''data/orgA_vs_orgB.crunch'', {#''100 100 0 10 orgA 5 15 orgB'' @ [CHR 0x0A]#})#}"
    using t unfolding s
    by (simp add: comparison_key_def split_seqid_writer_def py_split_sep_def os_path_join_def
        crunch_line_def ft_source_def ft_start_def ft_end_def ft_strand_def py_str_def)
  then show ?thesis using h1 h2 s by simp
qed

text \<open>
  C10. Pairs within one organism are kept. When \<open>write_crunch\<close> completes, every pair of
  a cluster whose two features have the same source name is written to the file
  \<open>X_vs_X.crunch\<close>, where \<open>X\<close> is the short name of that source. Every file that is written
  holds at least one line.
\<close>

theorem intra_organism_pairs_kept:
  assumes "write_crunch clusters features outdir = Inr files"
  shows "(\<forall>c\<in>set clusters. \<forall>p\<in>set (combinations2 c). \<forall>fa fb.
            features (fst p) = Some fa \<and> features (snd p) = Some fb \<and> ft_source fa = ft_source fb \<longrightarrow>
            (\<exists>writes.
               (os_path_join outdir
                  (split_seqid_writer (ft_source fa) @ ''_vs_'' @ split_seqid_writer (ft_source fa)
                   @ ''.crunch''), writes) \<in># files
               \<and> crunch_line (fst (sorted2 fa fb)) (snd (sorted2 fa fb)) \<in># writes))
         \<and> (\<forall>fl\<in>#files. snd fl \<noteq> {#})"
proof (intro conjI ballI allI impI)
  let ?d = "fold (\<lambda>p. dict_add (stored_key features p) (stored_entry features p)) (all_pairs clusters) []"
  have files: "files = write_files outdir ?d" by (rule write_crunch_Inr(3) [OF assms])
  {
    fix fl assume "fl \<in># files"
    then obtain kv where kv: "kv \<in> set ?d"
      and f: "snd fl = image_mset (\<lambda>e. crunch_line (fst e) (snd e)) (mset (snd kv))"
      unfolding files write_files_eq by auto
    have "\<forall>kv\<in>set ?d. snd kv \<noteq> []" by (rule fold_dict_values_nonempty) simp
    with kv f show "snd fl \<noteq> {#}" by simp
  }
  fix c p fa fb
  assume c: "c \<in> set clusters" and p: "p \<in> set (combinations2 c)"
    and h: "features (fst p) = Some fa \<and> features (snd p) = Some fb \<and> ft_source fa = ft_source fb"
  let ?e = "sorted2 fa fb"
  let ?X = "split_seqid_writer (ft_source fa)"
  from c p have "p \<in> set (all_pairs clusters)" by (auto simp: all_pairs_def)
  then have "(stored_key features p, stored_entry features p) \<in> dict_entries ?d"
    unfolding fold_dict_entries by simp
  moreover have e: "stored_entry features p = ?e" using h by (simp add: stored_entry_def)
  moreover have "stored_key features p = ?X @ ''_vs_'' @ ?X"
    unfolding stored_key_def e using h sorted2_cases [of fa fb]
    by (auto simp: comparison_key_def)
  ultimately have "(?X @ ''_vs_'' @ ?X, ?e) \<in> dict_entries ?d" by simp
  then obtain v where v: "(?X @ ''_vs_'' @ ?X, v) \<in> set ?d" and ev: "?e \<in> set v"
    by (auto dest: dict_entries_mem)
  let ?writes = "image_mset (\<lambda>e. crunch_line (fst e) (snd e)) (mset v)"
  have 1: "(os_path_join outdir (?X @ ''_vs_'' @ ?X @ ''.crunch''), ?writes) \<in># files"
    unfolding files using write_files_mem [OF v, of outdir] by simp
  have 2: "crunch_line (fst ?e) (snd ?e) \<in># ?writes"
    using ev by auto
  show "\<exists>writes.
               (os_path_join outdir (?X @ ''_vs_'' @ ?X @ ''.crunch''), writes) \<in># files
               \<and> crunch_line (fst (sorted2 fa fb)) (snd (sorted2 fa fb)) \<in># writes"
    by (rule exI [of _ ?writes]) (rule conjI [OF 1 2])
qed

theorem intra_organism_pairs_kept_witness:
  "write_crunch [[''id1'', ''id2'', ''id3'']]
     [''id1'' \<mapsto> (''gi|1|ref|NC_A.1'', 0, 10, 1), ''id2'' \<mapsto> (''gi|1|ref|NC_A.1'', 40, 30, - 1),
      ''id3'' \<mapsto> (''gi|2|ref|NC_B.1'', 5, 15, 1)] ''data''
   = Inr {#(''data/NC_A_vs_NC_A.crunch'',
             {#''100 100 0 10 gi|1|ref|NC_A.1 30 40 gi|1|ref|NC_A.1'' @ [CHR 0x0A]#}),
           (''data/NC_A_vs_NC_B.crunch'',
             {#''100 100 0 10 gi|1|ref|NC_A.1 5 15 gi|2|ref|NC_B.1'' @ [CHR 0x0A],
               ''100 100 30 40 gi|1|ref|NC_A.1 5 15 gi|2|ref|NC_B.1'' @ [CHR 0x0A]#})#}
   \<and> (\<exists>writes. (''data/NC_A_vs_NC_A.crunch'', writes)
         \<in># {#(''data/NC_A_vs_NC_A.crunch'',
                 {#''100 100 0 10 gi|1|ref|NC_A.1 30 40 gi|1|ref|NC_A.1'' @ [CHR 0x0A]#}),
               (''data/NC_A_vs_NC_B.crunch'',
                 {#''100 100 0 10 gi|1|ref|NC_A.1 5 15 gi|2|ref|NC_B.1'' @ [CHR 0x0A],
                   ''100 100 30 40 gi|1|ref|NC_A.1 5 15 gi|2|ref|NC_B.1'' @ [CHR 0x0A]#})#}
         \<and> ''100 100 0 10 gi|1|ref|NC_A.1 30 40 gi|1|ref|NC_A.1'' @ [CHR 0x0A] \<in># writes)"
proof -
  let ?fs = "[''id1'' \<mapsto> (''gi|1|ref|NC_A.1'', 0, 10, 1), ''id2'' \<mapsto> (''gi|1|ref|NC_A.1'', 40, 30, - 1),
      ''id3'' \<mapsto> (''gi|2|ref|NC_B.1'', 5, 15, 1)] :: ft_dict"
  let ?files = "{#(''data/NC_A_vs_NC_A.crunch'',
             {#''100 100 0 10 gi|1|ref|NC_A.1 30 40 gi|1|ref|NC_A.1'' @ [CHR 0x0A]#}),
           (''data/NC_A_vs_NC_B.crunch'',
             {#''100 100 0 10 gi|1|ref|NC_A.1 5 15 gi|2|ref|NC_B.1'' @ [CHR 0x0A],
               ''100 100 30 40 gi|1|ref|NC_A.1 5 15 gi|2|ref|NC_B.1'' @ [CHR 0x0A]#})#}"
  have run: "write_crunch [[''id1'', ''id2'', ''id3'']] ?fs ''data'' = Inr ?files"
    by (simp add: write_crunch_def sorted2_def comparison_key_def split_seqid_writer_def
        py_split_sep_def write_files_def os_path_join_def crunch_line_def ft_source_def
        ft_start_def ft_end_def ft_strand_def py_str_def)
  have line: "crunch_line (fst (sorted2 (''gi|1|ref|NC_A.1'', 0, 10, 1) (''gi|1|ref|NC_A.1'', 40, 30, - 1)))
      (snd (sorted2 (''gi|1|ref|NC_A.1'', 0, 10, 1) (''gi|1|ref|NC_A.1'', 40, 30, - 1)))
     = ''100 100 0 10 gi|1|ref|NC_A.1 30 40 gi|1|ref|NC_A.1'' @ [CHR 0x0A]"
    by (simp add: sorted2_def crunch_line_def ft_source_def ft_start_def ft_end_def ft_strand_def py_str_def)
  have name: "split_seqid_writer (ft_source (''gi|1|ref|NC_A.1'', 0, 10, 1)) = ''NC_A''"
    by (simp add: split_seqid_writer_def py_split_sep_def ft_source_def)
  have path: "os_path_join ''data'' (''NC_A'' @ ''_vs_'' @ ''NC_A'' @ ''.crunch'') = ''data/NC_A_vs_NC_A.crunch''"
    by (simp add: os_path_join_def)
  have c: "[''id1'', ''id2'', ''id3''] \<in> set [[''id1'', ''id2'', ''id3'']]" by simp
  have p: "(''id1'', ''id2'') \<in> set (combinations2 [''id1'', ''id2'', ''id3''])" by simp
  have h: "?fs (fst (''id1'', ''id2'')) = Some (''gi|1|ref|NC_A.1'', 0, 10, 1)
      \<and> ?fs (snd (''id1'', ''id2'')) = Some (''gi|1|ref|NC_A.1'', 40, 30, - 1)
      \<and> ft_source (''gi|1|ref|NC_A.1'', 0, 10, 1) = ft_source (''gi|1|ref|NC_A.1'', 40, 30, - 1)"
    by (simp add: ft_source_def)
  have ex: "\<exists>writes. (''data/NC_A_vs_NC_A.crunch'', writes) \<in># ?files
         \<and> ''100 100 0 10 gi|1|ref|NC_A.1 30 40 gi|1|ref|NC_A.1'' @ [CHR 0x0A] \<in># writes"
    using intra_organism_pairs_kept [OF run, THEN conjunct1, rule_format, OF c p h]
    unfolding line name path .
  show ?thesis by (rule conjI [OF run ex])
qed



text \<open>
  C6. On a well-formed cluster file \<open>read_mcl\<close> returns one cluster for each line that is
  not blank, in the order of the file, so as many clusters as there are such lines.
  The cluster of a line holds, for each whitespace-separated token of the line and in
  their order, the second-to-last \<open>|\<close>-delimited segment of the token, which is what the
  reader's \<open>split_seqid\<close> returns. The writer's \<open>split_seqid\<close> instead returns the last
  \<open>|\<close>-delimited segment, cut at its first dot.
\<close>

theorem read_mcl_well_formed:
  "(well_formed_mcl content \<longrightarrow>
      (\<exists>clusters. read_mcl content = Inr clusters
         \<and> length clusters = length (nonblank_lines content)
         \<and> clusters = map (\<lambda>l. map second_last_segment (py_split (strip l))) (nonblank_lines content)))
   \<and> (CHR ''|'' \<in> set t \<longrightarrow> split_seqid_reader t = Inr (second_last_segment t))
   \<and> split_seqid_writer t = takeWhile (\<lambda>c. c \<noteq> CHR ''.'') (last_segment t)"
proof (intro conjI impI)
  let ?clusters = "map (\<lambda>l. map second_last_segment (py_split (strip l))) (nonblank_lines content)"
  assume "well_formed_mcl content"
  then have "read_mcl content = Inr ?clusters" by (simp add: read_mcl_eq)
  moreover have "length ?clusters = length (nonblank_lines content)" by simp
  ultimately show "\<exists>clusters. read_mcl content = Inr clusters
         \<and> length clusters = length (nonblank_lines content)
         \<and> clusters = map (\<lambda>l. map second_last_segment (py_split (strip l))) (nonblank_lines content)"
    by (intro exI [of _ ?clusters] conjI) simp_all
next
  assume "CHR ''|'' \<in> set t"
  then show "split_seqid_reader t = Inr (second_last_segment t)"
    by (simp add: split_seqid_reader_eq)
next
  show "split_seqid_writer t = takeWhile (\<lambda>c. c \<noteq> CHR ''.'') (last_segment t)"
    by (simp add: split_seqid_writer_takeWhile last_segment_last)
qed

theorem read_mcl_well_formed_witness:
  "well_formed_mcl (''gi|1|ref|YP_1.1|'' @ [CHR 0x09] @ ''gi|2|ref|YP_2.1|'' @ [CHR 0x0A, CHR 0x0A]
      @ ''gi|3|ref|YP_3.1|'' @ [CHR 0x0A])
   \<and> read_mcl (''gi|1|ref|YP_1.1|'' @ [CHR 0x09] @ ''gi|2|ref|YP_2.1|'' @ [CHR 0x0A, CHR 0x0A]
      @ ''gi|3|ref|YP_3.1|'' @ [CHR 0x0A])
     = Inr [[''YP_1.1'', ''YP_2.1''], [''YP_3.1'']]
   \<and> length (nonblank_lines (''gi|1|ref|YP_1.1|'' @ [CHR 0x09] @ ''gi|2|ref|YP_2.1|'' @ [CHR 0x0A, CHR 0x0A]
      @ ''gi|3|ref|YP_3.1|'' @ [CHR 0x0A])) = 2
   \<and> split_seqid_writer ''gi|50118965|ref|NC_004547.2'' = ''NC_004547''
   \<and> split_seqid_reader ''gi|50118965|ref|NC_004547.2'' = Inr ''ref''"
proof -
  let ?c = "''gi|1|ref|YP_1.1|'' @ [CHR 0x09] @ ''gi|2|ref|YP_2.1|'' @ [CHR 0x0A, CHR 0x0A]
      @ ''gi|3|ref|YP_3.1|'' @ [CHR 0x0A]"
  have lines: "readlines ?c = [''gi|1|ref|YP_1.1|'' @ [CHR 0x09] @ ''gi|2|ref|YP_2.1|'' @ [CHR 0x0A],
      [CHR 0x0A], ''gi|3|ref|YP_3.1|'' @ [CHR 0x0A]]"
    by (simp add: readlines_def)
  have nb: "nonblank_lines ?c = [''gi|1|ref|YP_1.1|'' @ [CHR 0x09] @ ''gi|2|ref|YP_2.1|'' @ [CHR 0x0A],
      ''gi|3|ref|YP_3.1|'' @ [CHR 0x0A]]"
    unfolding nonblank_lines_def lines by (simp add: strip_def is_space_def)
  have wf: "well_formed_mcl ?c"
    unfolding well_formed_mcl_def lines by (simp add: strip_def is_space_def py_split_def)
  note t = read_mcl_well_formed [of ?c "''gi|50118965|ref|NC_004547.2''"]
  from t [THEN conjunct1, rule_format, OF wf]
  have "read_mcl ?c = Inr (map (\<lambda>l. map second_last_segment (py_split (strip l))) (nonblank_lines ?c))"
    by blast
  also have "map (\<lambda>l. map second_last_segment (py_split (strip l))) (nonblank_lines ?c)
      = [[''YP_1.1'', ''YP_2.1''], [''YP_3.1'']]"
    unfolding nb
    by (simp add: strip_def is_space_def py_split_def second_last_segment_def py_split_sep_def)
  finally have r: "read_mcl ?c = Inr [[''YP_1.1'', ''YP_2.1''], [''YP_3.1'']]" .
  have n: "length (nonblank_lines ?c) = 2" unfolding nb by simp
  have "split_seqid_writer ''gi|50118965|ref|NC_004547.2''
      = takeWhile (\<lambda>c. c \<noteq> CHR ''.'') (last_segment ''gi|50118965|ref|NC_004547.2'')"
    by (rule t [THEN conjunct2, THEN conjunct2])
  also have "\<dots> = ''NC_004547''"
    by (simp add: last_segment_def py_split_sep_def)
  finally have w: "split_seqid_writer ''gi|50118965|ref|NC_004547.2'' = ''NC_004547''" .
  have bar: "CHR ''|'' \<in> set ''gi|50118965|ref|NC_004547.2''" by simp
  have "split_seqid_reader ''gi|50118965|ref|NC_004547.2''
      = Inr (second_last_segment ''gi|50118965|ref|NC_004547.2'')"
    by (rule t [THEN conjunct2, THEN conjunct1, rule_format, OF bar])
  also have "second_last_segment ''gi|50118965|ref|NC_004547.2'' = ''ref''"
    by (simp add: second_last_segment_def py_split_sep_def)
  finally have sr: "split_seqid_reader ''gi|50118965|ref|NC_004547.2'' = Inr ''ref''" .
  show ?thesis by (rule conjI [OF wf conjI [OF r conjI [OF n conjI [OF w sr]]]])
qed

text \<open>
  C9. \<open>read_mcl\<close> returns a result exactly when every token of every line that is not
  blank has at least one \<open>|\<close>. The reader's \<open>split_seqid\<close> raises \<open>IndexError\<close> exactly on a
  token without \<open>|\<close>, and on a file with such a token \<open>read_mcl\<close> ends with that
  \<open>IndexError\<close>; when every token has a \<open>|\<close> the error is not reached.
\<close>

theorem read_mcl_total_iff:
  "((\<exists>clusters. read_mcl content = Inr clusters) = well_formed_mcl content)
   \<and> (\<not> well_formed_mcl content \<longrightarrow> read_mcl content = Inl IndexError)
   \<and> ((split_seqid_reader t = Inl IndexError) = (CHR ''|'' \<notin> set t))
   \<and> ((\<exists>s. split_seqid_reader t = Inr s) = (CHR ''|'' \<in> set t))
   \<and> well_formed_mcl content
      = (\<forall>l\<in>set (nonblank_lines content). \<forall>t\<in>set (py_split (strip l)). CHR ''|'' \<in> set t)"
proof (intro conjI impI)
  show "(\<exists>clusters. read_mcl content = Inr clusters) = well_formed_mcl content"
    by (simp add: read_mcl_eq)
next
  assume "\<not> well_formed_mcl content"
  then show "read_mcl content = Inl IndexError" by (simp add: read_mcl_eq)
next
  show "(split_seqid_reader t = Inl IndexError) = (CHR ''|'' \<notin> set t)"
    by (simp add: split_seqid_reader_eq)
next
  show "(\<exists>s. split_seqid_reader t = Inr s) = (CHR ''|'' \<in> set t)"
    by (simp add: split_seqid_reader_eq)
next
  show "well_formed_mcl content
      = (\<forall>l\<in>set (nonblank_lines content). \<forall>t\<in>set (py_split (strip l)). CHR ''|'' \<in> set t)"
    by (rule well_formed_mcl_tokens)
qed

theorem read_mcl_total_iff_witness:
  "\<not> well_formed_mcl (''id1'' @ [CHR 0x09] @ ''id2'' @ [CHR 0x0A] @ ''id3'' @ [CHR 0x0A])
   \<and> read_mcl (''id1'' @ [CHR 0x09] @ ''id2'' @ [CHR 0x0A] @ ''id3'' @ [CHR 0x0A]) = Inl IndexError
   \<and> well_formed_mcl (''gi|id1|'' @ [CHR 0x09] @ ''gi|id2|'' @ [CHR 0x0A] @ ''gi|id3|'' @ [CHR 0x0A])
   \<and> (\<exists>clusters. read_mcl (''gi|id1|'' @ [CHR 0x09] @ ''gi|id2|'' @ [CHR 0x0A] @ ''gi|id3|'' @ [CHR 0x0A])
        = Inr clusters)"
proof -
  let ?bad = "''id1'' @ [CHR 0x09] @ ''id2'' @ [CHR 0x0A] @ ''id3'' @ [CHR 0x0A]"
  let ?good = "''gi|id1|'' @ [CHR 0x09] @ ''gi|id2|'' @ [CHR 0x0A] @ ''gi|id3|'' @ [CHR 0x0A]"
  have nwf: "\<not> well_formed_mcl ?bad"
    by (simp add: well_formed_mcl_def readlines_def strip_def is_space_def py_split_def)
  have wf: "well_formed_mcl ?good"
    by (simp add: well_formed_mcl_def readlines_def strip_def is_space_def py_split_def)
  have e: "read_mcl ?bad = Inl IndexError"
    by (rule read_mcl_total_iff [THEN conjunct2, THEN conjunct1, rule_format, OF nwf])
  have r: "\<exists>clusters. read_mcl ?good = Inr clusters"
    by (rule iffD2 [OF read_mcl_total_iff [THEN conjunct1] wf])
  show ?thesis by (rule conjI [OF nwf conjI [OF e conjI [OF wf r]]])
qed

text \<open>
  C7. When every record loads, \<open>read_genbank\<close> returns the dictionary that maps the
  protein identifier of each coding-sequence feature to the tuple (source name, start,
  end, strand) of that feature, the source name being \<open>gi|\<close>, the record's \<open>gi\<close> number,
  \<open>|ref|\<close> and the record's identifier. Its keys are exactly those protein identifiers.
  Where a protein identifier occurs more than once, the entry written last stays: the
  value is the one from the last file that has the identifier, whatever the earlier
  files hold, and nothing reports the conflict. A record without the annotation \<open>gi\<close>,
  or with a coding-sequence feature that has no protein identifier, makes
  \<open>read_genbank\<close> raise instead.
\<close>

theorem read_genbank_last_wins:
  "(list_all loads records \<longrightarrow>
      (\<exists>ft_dict. read_genbank records = Inr ft_dict
         \<and> ft_dict = map_of (rev (concat (map cds_entries records)))
         \<and> dom ft_dict = fst ` set (concat (map cds_entries records))
         \<and> (\<forall>k v. ft_dict k = Some v \<longrightarrow> (k, v) \<in> set (concat (map cds_entries records)))
         \<and> (\<forall>rs1 r rs2 k. records = rs1 @ r # rs2 \<and> k \<in> fst ` set (cds_entries r)
               \<and> (\<forall>r'\<in>set rs2. k \<notin> fst ` set (cds_entries r'))
               \<longrightarrow> ft_dict k = map_of (rev (cds_entries r)) k)))
   \<and> record_name_of gi rid = ''gi|'' @ gi @ ''|ref|'' @ rid
   \<and> (\<exists>ft_dict. read_genbank records = Inr ft_dict) = list_all loads records"
proof (intro conjI impI)
  assume l: "list_all loads records"
  let ?d = "map_of (rev (concat (map cds_entries records)))"
  have 1: "read_genbank records = Inr ?d" by (rule read_genbank_ok [OF l])
  have 2: "dom ?d = fst ` set (concat (map cds_entries records))"
    by (simp add: dom_map_of_conv_image_fst)
  have 3: "\<forall>k v. ?d k = Some v \<longrightarrow> (k, v) \<in> set (concat (map cds_entries records))"
    by (auto dest: map_of_SomeD)
  have 4: "\<forall>rs1 r rs2 k. records = rs1 @ r # rs2 \<and> k \<in> fst ` set (cds_entries r)
               \<and> (\<forall>r'\<in>set rs2. k \<notin> fst ` set (cds_entries r'))
               \<longrightarrow> ?d k = map_of (rev (cds_entries r)) k"
    using last_record_wins by blast
  show "\<exists>ft_dict. read_genbank records = Inr ft_dict
         \<and> ft_dict = map_of (rev (concat (map cds_entries records)))
         \<and> dom ft_dict = fst ` set (concat (map cds_entries records))
         \<and> (\<forall>k v. ft_dict k = Some v \<longrightarrow> (k, v) \<in> set (concat (map cds_entries records)))
         \<and> (\<forall>rs1 r rs2 k. records = rs1 @ r # rs2 \<and> k \<in> fst ` set (cds_entries r)
               \<and> (\<forall>r'\<in>set rs2. k \<notin> fst ` set (cds_entries r'))
               \<longrightarrow> ft_dict k = map_of (rev (cds_entries r)) k)"
    using 1 2 3 4 by (intro exI [of _ ?d] conjI) simp_all
next
  show "record_name_of gi rid = ''gi|'' @ gi @ ''|ref|'' @ rid" by (rule record_name_of_eq)
next
  show "(\<exists>ft_dict. read_genbank records = Inr ft_dict) = list_all loads records"
  proof (cases "list_all loads records")
    case True
    then show ?thesis by (simp add: read_genbank_ok)
  next
    case False
    from read_genbank_err [OF this] obtain e where "read_genbank records = Inl e" ..
    with False show ?thesis by simp
  qed
qed

theorem read_genbank_last_wins_witness:
  "list_all loads [rec_a, rec_b]
   \<and> (\<exists>ft_dict. read_genbank [rec_a, rec_b] = Inr ft_dict
        \<and> ft_dict ''YP_1.1'' = Some (''gi|188532166|ref|NC_010694.1'', 5, 15, - 1)
        \<and> ft_dict ''YP_2.1'' = Some (''gi|50118965|ref|NC_004547.2'', 20, 50, - 1)
        \<and> dom ft_dict = {''YP_1.1'', ''YP_2.1''})"
proof -
  have l: "list_all loads [rec_a, rec_b]"
    by (simp add: loads_def rec_a_def rec_b_def has_protein_id_def)
  have ea: "cds_entries rec_a = [(''YP_1.1'', (''gi|50118965|ref|NC_004547.2'', 0, 10, 1)),
      (''YP_2.1'', (''gi|50118965|ref|NC_004547.2'', 20, 50, - 1))]"
    by (simp add: cds_entries_def cds_entry_def rec_a_def)
  have eb: "cds_entries rec_b = [(''YP_1.1'', (''gi|188532166|ref|NC_010694.1'', 5, 15, - 1))]"
    by (simp add: cds_entries_def cds_entry_def rec_b_def)
  from read_genbank_last_wins [THEN conjunct1, rule_format, OF l]
  obtain ft_dict where r: "read_genbank [rec_a, rec_b] = Inr ft_dict"
    and d: "ft_dict = map_of (rev (concat (map cds_entries [rec_a, rec_b])))"
    and dm: "dom ft_dict = fst ` set (concat (map cds_entries [rec_a, rec_b]))"
    and lw: "\<forall>rs1 r rs2 k. [rec_a, rec_b] = rs1 @ r # rs2 \<and> k \<in> fst ` set (cds_entries r)
               \<and> (\<forall>r'\<in>set rs2. k \<notin> fst ` set (cds_entries r'))
               \<longrightarrow> ft_dict k = map_of (rev (cds_entries r)) k"
    by blast
  have "[rec_a, rec_b] = [rec_a] @ rec_b # [] \<and> ''YP_1.1'' \<in> fst ` set (cds_entries rec_b)
      \<and> (\<forall>r'\<in>set []. ''YP_1.1'' \<notin> fst ` set (cds_entries r'))"
    by (simp add: eb)
  with lw have "ft_dict ''YP_1.1'' = map_of (rev (cds_entries rec_b)) ''YP_1.1''" by blast
  then have 1: "ft_dict ''YP_1.1'' = Some (''gi|188532166|ref|NC_010694.1'', 5, 15, - 1)"
    by (simp add: eb)
  have 2: "ft_dict ''YP_2.1'' = Some (''gi|50118965|ref|NC_004547.2'', 20, 50, - 1)"
    unfolding d by (simp add: ea eb)
  have 3: "dom ft_dict = {''YP_1.1'', ''YP_2.1''}"
    unfolding dm by (auto simp: ea eb)
  show ?thesis using l r 1 2 3 by (intro conjI exI [of _ ft_dict])
qed

end
